theory Spec2Isabelle
  imports Complex_Main
begin

section \<open>Data model\<close>

text \<open>
  The trailing-stop engine of the bot lives in two classes: \<^verbatim>\<open>Position\<close> (one long
  trade with its price, stop and profit bookkeeping) and \<^verbatim>\<open>TrailingProfitMaximizer\<close>
  (the list of positions, the closed-trade history and the statistics).  The
  \<^verbatim>\<open>Backtester\<close> replays candles against them.

  JavaScript numbers are modelled as \<^typ>\<open>real\<close>: the arithmetic of the code is
  taken exactly, so rounding, \<^verbatim>\<open>NaN\<close> and the infinities of a division by zero are
  outside the model.  A value that may be \<^verbatim>\<open>null\<close> or \<^verbatim>\<open>undefined\<close> is an
  \<^typ>\<open>'a option\<close>.  Time stamps are integers (milliseconds).
\<close>

datatype status = OPENING | ACTIVE | CLOSING | CLOSED

text \<open>
  The object \<^verbatim>\<open>trailingSettings\<close> of a position and the object passed to
  \<^verbatim>\<open>updateTrailingStop\<close>: each key is a number, or missing / \<^verbatim>\<open>null\<close>.
\<close>

record settings =
  initialStopDistancePercent :: "real option"
  activationThresholdPercent :: "real option"
  trailingDistancePercent :: "real option"

text \<open>The object \<^verbatim>\<open>activeSettings\<close> built inside \<^verbatim>\<open>updateTrailingStop\<close>: three numbers.\<close>

record activeSettings =
  a_initialStopDistancePercent :: real
  a_activationThresholdPercent :: real
  a_trailingDistancePercent :: real

record position =
  symbol :: string
  entryPrice :: real
  quantity :: real
  openDate :: int
  closeDate :: "int option"
  openOrderId :: "nat option"
  stopOrderId :: "nat option"
  highestPrice :: real
  currentPrice :: real
  initialStopPrice :: real
  currentTrailingStop :: real
  status :: status
  profit :: real
  profitPercent :: real
  trailingSettings :: settings
  posNotes :: string
  tags :: "string list"

text \<open>The constructor of \<^verbatim>\<open>Position\<close>; the reading of the clock is the argument \<open>now\<close>.\<close>

definition unsetSettings :: settings where
  "unsetSettings =
     \<lparr>initialStopDistancePercent = None,
      activationThresholdPercent = None,
      trailingDistancePercent = None\<rparr>"

definition newPosition :: "int \<Rightarrow> string \<Rightarrow> real \<Rightarrow> real \<Rightarrow> nat option \<Rightarrow> position" where
  "newPosition now smb entry qty oid =
     \<lparr>symbol = smb, entryPrice = entry, quantity = qty,
      openDate = now, closeDate = None,
      openOrderId = oid, stopOrderId = None,
      highestPrice = entry, currentPrice = entry,
      initialStopPrice = 0, currentTrailingStop = 0,
      status = OPENING, profit = 0, profitPercent = 0,
      trailingSettings = unsetSettings,
      posNotes = [], tags = []\<rparr>"

section \<open>Position\<close>

text \<open>
  \<^verbatim>\<open>updateProfit\<close> returns at once when \<^verbatim>\<open>currentPrice\<close> is falsy (zero), leaving the
  stored profit as it was.
\<close>

definition updateProfit :: "position \<Rightarrow> position" where
  "updateProfit p =
     (if currentPrice p = 0 then p
      else p\<lparr>profit := quantity p * currentPrice p - quantity p * entryPrice p,
             profitPercent := ((currentPrice p / entryPrice p) - 1) * 100\<rparr>)"

definition setInitialStop :: "real \<Rightarrow> position \<Rightarrow> real \<times> position" where
  "setInitialStop stopPrice p =
     (let p' = p\<lparr>initialStopPrice := stopPrice\<rparr>;
          p'' = p'\<lparr>currentTrailingStop := initialStopPrice p'\<rparr>
      in (currentTrailingStop p'', p''))"

text \<open>
  The operator \<^verbatim>\<open>||\<close> on numbers that may be missing: the left operand when it is
  truthy (a number other than zero), the right operand otherwise.  The chain
  \<^verbatim>\<open>a || b || d\<close> with a numeric literal \<open>d\<close> is \<open>js_or_num (js_or a b) d\<close>.
\<close>

definition js_truthy :: "real option \<Rightarrow> bool" where
  "js_truthy v = (case v of None \<Rightarrow> False | Some x \<Rightarrow> x \<noteq> 0)"

definition js_or :: "real option \<Rightarrow> real option \<Rightarrow> real option" where
  "js_or a b = (if js_truthy a then a else b)"

definition js_or_num :: "real option \<Rightarrow> real \<Rightarrow> real" where
  "js_or_num a d = (case a of None \<Rightarrow> d | Some x \<Rightarrow> if x \<noteq> 0 then x else d)"

definition resolveSettings :: "settings \<Rightarrow> position \<Rightarrow> activeSettings" where
  "resolveSettings s p =
     \<lparr>a_initialStopDistancePercent =
        js_or_num (js_or (initialStopDistancePercent s)
                         (initialStopDistancePercent (trailingSettings p))) 2,
      a_activationThresholdPercent =
        js_or_num (js_or (activationThresholdPercent s)
                         (activationThresholdPercent (trailingSettings p))) 1,
      a_trailingDistancePercent =
        js_or_num (js_or (trailingDistancePercent s)
                         (trailingDistancePercent (trailingSettings p))) (3 / 2)\<rparr>"

text \<open>\<^verbatim>\<open>Object.assign(this.trailingSettings, activeSettings)\<close>\<close>

definition assignSettings :: "activeSettings \<Rightarrow> settings \<Rightarrow> settings" where
  "assignSettings a s =
     s\<lparr>initialStopDistancePercent := Some (a_initialStopDistancePercent a),
       activationThresholdPercent := Some (a_activationThresholdPercent a),
       trailingDistancePercent := Some (a_trailingDistancePercent a)\<rparr>"

text \<open>
  \<^verbatim>\<open>updateTrailingStop(settings)\<close>: the returned stop and the position after the call.
\<close>

definition updateTrailingStop :: "settings \<Rightarrow> position \<Rightarrow> real \<times> position" where
  "updateTrailingStop s p =
     (let a = resolveSettings s p;
          p1 = p\<lparr>trailingSettings := assignSettings a (trailingSettings p)\<rparr>
      in if currentTrailingStop p1 = 0 then
           (let stopDistance = entryPrice p1 * (a_initialStopDistancePercent a / 100)
            in setInitialStop (entryPrice p1 - stopDistance) p1)
         else
           (let p2 = updateProfit p1
            in if profitPercent p2 < a_activationThresholdPercent a then
                 (currentTrailingStop p2, p2)
               else
                 (let trailingDistance = highestPrice p2 * (a_trailingDistancePercent a / 100);
                      newPossibleStop = highestPrice p2 - trailingDistance;
                      p3 = (if newPossibleStop > currentTrailingStop p2
                            then p2\<lparr>currentTrailingStop := newPossibleStop\<rparr> else p2)
                  in (currentTrailingStop p3, p3))))"

text \<open>
  \<^verbatim>\<open>close(closePrice, closeReason)\<close>: \<open>False\<close> and no change when the position is
  closed already.
\<close>

definition close_note :: "string \<Rightarrow> string" where
  "close_note closeReason =
     (if closeReason \<noteq> [] then '' Closed: '' @ closeReason else '' Closed.'')"

definition close :: "int \<Rightarrow> real \<Rightarrow> string \<Rightarrow> position \<Rightarrow> bool \<times> position" where
  "close now closePrice closeReason p =
     (if status p = CLOSED then (False, p)
      else
        (let p1 = p\<lparr>closeDate := Some now, currentPrice := closePrice\<rparr>;
             p2 = updateProfit p1;
             p3 = p2\<lparr>status := CLOSED\<rparr>;
             p4 = p3\<lparr>posNotes := posNotes p3 @ close_note closeReason\<rparr>
         in (True, p4)))"

section \<open>Closed trades and statistics\<close>

text \<open>The object \<^verbatim>\<open>trade\<close> that \<^verbatim>\<open>closePosition\<close> pushes to \<^verbatim>\<open>profitHistory\<close>.\<close>

record trade =
  t_symbol :: string
  t_entryPrice :: real
  t_exitPrice :: real
  t_quantity :: real
  t_profit :: real
  t_profitPercent :: real
  t_openDate :: int
  t_closeDate :: "int option"
  t_holdingTimeMs :: int
  t_stopPrice :: real
  t_reason :: string

record stats =
  totalTrades :: nat
  winningTrades :: nat
  losingTrades :: nat
  totalProfit :: real
  totalProfitPercent :: real
  biggestWin :: real
  biggestLoss :: real
  averageProfit :: real
  averageProfitPercent :: real
  winRate :: real
  profitFactor :: real
  averageHoldingTimeMs :: real
  averageHoldingTimeHours :: real

text \<open>
  The variables of the loop of \<^verbatim>\<open>getStatistics\<close>: the record \<^verbatim>\<open>stats\<close> and the three
  local sums.
\<close>

record statsLoop =
  l_stats :: stats
  totalWinAmount :: real
  totalLossAmount :: real
  totalHoldingTimeMs :: real

definition zeroStats :: "nat \<Rightarrow> stats" where
  "zeroStats n =
     \<lparr>totalTrades = n, winningTrades = 0, losingTrades = 0,
      totalProfit = 0, totalProfitPercent = 0, biggestWin = 0, biggestLoss = 0,
      averageProfit = 0, averageProfitPercent = 0, winRate = 0, profitFactor = 0,
      averageHoldingTimeMs = 0, averageHoldingTimeHours = 0\<rparr>"

definition statsStep :: "statsLoop \<Rightarrow> trade \<Rightarrow> statsLoop" where
  "statsStep l t =
     (let s = l_stats l;
          s1 = s\<lparr>totalProfit := totalProfit s + t_profit t,
                 totalProfitPercent := totalProfitPercent s + t_profitPercent t\<rparr>;
          l1 = l\<lparr>l_stats := s1,
                 totalHoldingTimeMs := totalHoldingTimeMs l + of_int (t_holdingTimeMs t)\<rparr>
      in if t_profit t > 0 then
           l1\<lparr>l_stats := s1\<lparr>winningTrades := winningTrades s1 + 1,
                              biggestWin := max (biggestWin s1) (t_profit t)\<rparr>,
              totalWinAmount := totalWinAmount l1 + t_profit t\<rparr>
         else
           l1\<lparr>l_stats := s1\<lparr>losingTrades := losingTrades s1 + 1,
                              biggestLoss := min (biggestLoss s1) (t_profit t)\<rparr>,
              totalLossAmount := totalLossAmount l1 + \<bar>t_profit t\<bar>\<rparr>)"

definition statsLoopRun :: "trade list \<Rightarrow> statsLoop" where
  "statsLoopRun h =
     foldl statsStep
       \<lparr>l_stats = zeroStats (length h), totalWinAmount = 0, totalLossAmount = 0,
        totalHoldingTimeMs = 0\<rparr> h"

definition getStatistics :: "trade list \<Rightarrow> stats" where
  "getStatistics h =
     (if length h = 0 then zeroStats (length h)
      else
        (let l = statsLoopRun h;
             s = l_stats l;
             s1 = s\<lparr>averageProfit := totalProfit s / of_nat (totalTrades s)\<rparr>;
             s2 = s1\<lparr>averageProfitPercent := totalProfitPercent s1 / of_nat (totalTrades s1)\<rparr>;
             s3 = s2\<lparr>winRate := (of_nat (winningTrades s2) / of_nat (totalTrades s2)) * 100\<rparr>;
             s4 = s3\<lparr>profitFactor :=
                       (if totalLossAmount l > 0 then totalWinAmount l / totalLossAmount l
                        else totalWinAmount l)\<rparr>;
             s5 = s4\<lparr>averageHoldingTimeMs := totalHoldingTimeMs l / of_nat (totalTrades s4)\<rparr>;
             s6 = s5\<lparr>averageHoldingTimeHours := averageHoldingTimeMs s5 / (1000 * 60 * 60)\<rparr>
         in s6))"

section \<open>Candles and the post-processing of the historical data\<close>

text \<open>
  A kline is the array of twelve values that \<^verbatim>\<open>loadHistoricalData\<close> builds from a candle
  of the exchange; the prices are given as the numbers that \<^verbatim>\<open>parseFloat\<close> reads from
  them in \<^verbatim>\<open>run\<close>.
\<close>

record kline =
  openTime :: int
  k_open :: real
  high :: real
  low :: real
  k_close :: real
  volume :: real
  closeTime :: int
  quoteVolume :: real
  trades :: nat
  buyVolume :: real
  buyQuoteVolume :: real

datatype error = NoHistoricalData | GatewayError

text \<open>The loop that removes duplicates, with its variables \<^verbatim>\<open>seenTimestamps\<close> and \<^verbatim>\<open>uniqueData\<close>.\<close>

fun uniqueLoop :: "int set \<Rightarrow> kline list \<Rightarrow> kline list \<Rightarrow> kline list" where
  "uniqueLoop seenTimestamps uniqueData [] = uniqueData"
| "uniqueLoop seenTimestamps uniqueData (k # ks) =
     (if openTime k \<notin> seenTimestamps
      then uniqueLoop (insert (openTime k) seenTimestamps) (uniqueData @ [k]) ks
      else uniqueLoop seenTimestamps uniqueData ks)"

text \<open>
  Lines 104 to 119 of \<^verbatim>\<open>loadHistoricalData\<close>: filter to the time range, remove duplicates,
  sort by open time (\<^verbatim>\<open>Array.prototype.sort\<close> is stable).
\<close>

definition inRange :: "int \<Rightarrow> int \<Rightarrow> kline \<Rightarrow> bool" where
  "inRange finalStartTime finalEndTime k =
     (openTime k \<ge> finalStartTime \<and> closeTime k \<le> finalEndTime)"

definition postProcess :: "int \<Rightarrow> int \<Rightarrow> kline list \<Rightarrow> kline list" where
  "postProcess finalStartTime finalEndTime historicalData =
     (let filtered = filter (inRange finalStartTime finalEndTime) historicalData;
          uniqueData = uniqueLoop {} [] filtered
      in sort_key openTime uniqueData)"

text \<open>The end of \<^verbatim>\<open>loadHistoricalData\<close>: an empty result is an error.\<close>

definition loadHistoricalData_finish :: "int \<Rightarrow> int \<Rightarrow> kline list \<Rightarrow> error + kline list" where
  "loadHistoricalData_finish finalStartTime finalEndTime historicalData =
     (let d = postProcess finalStartTime finalEndTime historicalData
      in if length d = 0 then Inl NoHistoricalData else Inr d)"

section \<open>Price observations on one position\<close>

text \<open>
  What one pass of the loop body of \<^verbatim>\<open>Backtester.run\<close> (lines 216 to 235) does to the
  position it handles, before the nested call of \<^verbatim>\<open>updateTrailingStops\<close>: the close of
  the candle becomes the current price, a triggered stop closes the position at the stop
  price, otherwise the high of the candle may raise the highest price.
\<close>

definition stopTriggered :: "kline \<Rightarrow> position \<Rightarrow> bool" where
  "stopTriggered k p = (currentTrailingStop p > 0 \<and> low k \<le> currentTrailingStop p)"

definition raiseHighest :: "kline \<Rightarrow> position \<Rightarrow> position" where
  "raiseHighest k p = (if high k > highestPrice p then p\<lparr>highestPrice := high k\<rparr> else p)"

definition candleTurn :: "int \<Rightarrow> kline \<Rightarrow> position \<Rightarrow> position" where
  "candleTurn now k p =
     (let p1 = updateProfit (p\<lparr>currentPrice := k_close k\<rparr>)
      in if stopTriggered k p1
         then snd (close now (currentTrailingStop p1) ''StopLoss (Backtest)'' p1)
         else raiseHighest k p1)"

text \<open>The body of the loop of \<^verbatim>\<open>refreshPrices\<close> (lines 96 to 110) for one position.\<close>

definition refreshPrice :: "real \<Rightarrow> position \<Rightarrow> position" where
  "refreshPrice c p =
     (if status p = ACTIVE then
        (let p1 = p\<lparr>currentPrice := c\<rparr>;
             p2 = (if c > highestPrice p1 then p1\<lparr>highestPrice := c\<rparr> else p1)
         in updateProfit p2)
      else p)"

text \<open>
  The events that reach a position: a candle of the backtest, a price refresh, a call
  of \<^verbatim>\<open>updateTrailingStop\<close> from \<^verbatim>\<open>updateTrailingStops\<close> (which skips positions that are
  not active), and a call of \<^verbatim>\<open>setInitialStop\<close> from outside.
\<close>

datatype event = Candle int kline | Refresh real | UpdateStop settings | InitialStop real

fun step :: "event \<Rightarrow> position \<Rightarrow> position" where
  "step (Candle now k) p = (if status p = ACTIVE then candleTurn now k p else p)"
| "step (Refresh c) p = refreshPrice c p"
| "step (UpdateStop s) p = (if status p = ACTIVE then snd (updateTrailingStop s p) else p)"
| "step (InitialStop v) p = snd (setInitialStop v p)"

fun run :: "event list \<Rightarrow> position \<Rightarrow> position" where
  "run [] p = p"
| "run (e # es) p = run es (step e p)"

text \<open>
  The number of calls of \<^verbatim>\<open>setInitialStop\<close> during a run: the calls from outside and the
  calls that \<^verbatim>\<open>updateTrailingStop\<close> makes when it finds the stop at zero.
\<close>

fun callsSetInitialStop :: "event \<Rightarrow> position \<Rightarrow> bool" where
  "callsSetInitialStop (InitialStop v) p = True"
| "callsSetInitialStop (UpdateStop s) p = (status p = ACTIVE \<and> currentTrailingStop p = 0)"
| "callsSetInitialStop _ p = False"

fun setInitialStop_calls :: "event list \<Rightarrow> position \<Rightarrow> nat" where
  "setInitialStop_calls [] p = 0"
| "setInitialStop_calls (e # es) p =
     (if callsSetInitialStop e p then 1 else 0) + setInitialStop_calls es (step e p)"

definition positiveSettings :: "settings \<Rightarrow> bool" where
  "positiveSettings s =
     ((case initialStopDistancePercent s of None \<Rightarrow> True | Some v \<Rightarrow> 0 < v) \<and>
      (case activationThresholdPercent s of None \<Rightarrow> True | Some v \<Rightarrow> 0 < v) \<and>
      (case trailingDistancePercent s of None \<Rightarrow> True | Some v \<Rightarrow> 0 < v))"

fun positiveEvent :: "event \<Rightarrow> bool" where
  "positiveEvent (UpdateStop s) = positiveSettings s"
| "positiveEvent _ = True"

text \<open>
  The invariant behind the bound of the stop by the highest price.
\<close>

definition stopBelowHighest :: "position \<Rightarrow> bool" where
  "stopBelowHighest p =
     (0 \<le> highestPrice p \<and> positiveSettings (trailingSettings p) \<and>
      currentTrailingStop p \<le> highestPrice p)"

section \<open>The bot and the backtest simulation\<close>

text \<open>
  The state of a backtest run: the fields of the simulated \<^verbatim>\<open>TrailingProfitMaximizer\<close>
  that the loop touches (\<^verbatim>\<open>positions\<close>, \<^verbatim>\<open>profitHistory\<close>, \<^verbatim>\<open>config.trailingStop\<close>,
  \<^verbatim>\<open>config.tradingMode\<close>), the list \<^verbatim>\<open>results.trades\<close> of the \<^verbatim>\<open>Backtester\<close>, which its
  listener for \<^verbatim>\<open>positionClosed\<close> fills, and the number of orders sent to the exchange
  client so far.  Log output is not part of the state.

  The exchange client \<^verbatim>\<open>BinanceClient\<close> is a parameter of the model:
  \<open>gw n\<close> is the answer to the order request number \<open>n\<close>, \<open>None\<close> when the request
  throws and \<open>Some oid\<close> with the id of the new order otherwise.
\<close>

datatype mode = Live | Paper

record simulation =
  positions :: "position list"
  profitHistory :: "trade list"
  trailingStop :: settings
  tradingMode :: mode
  resultsTrades :: "trade list"
  orderCount :: nat

type_synonym gateway = "nat \<Rightarrow> nat option"

text \<open>\<^verbatim>\<open>String.prototype.includes\<close>\<close>

fun startsWith :: "string \<Rightarrow> string \<Rightarrow> bool" where
  "startsWith s [] = True"
| "startsWith [] (c # cs) = False"
| "startsWith (x # xs) (c # cs) = (x = c \<and> startsWith xs cs)"

fun includesStr :: "string \<Rightarrow> string \<Rightarrow> bool" where
  "includesStr [] t = (t = [])"
| "includesStr (x # xs) t = (startsWith (x # xs) t \<or> includesStr xs t)"

text \<open>
  \<^verbatim>\<open>updateStopOrder(position, newStopPrice)\<close> for the position at index \<open>i\<close>: a failure
  to cancel the old order is caught and logged; a failure to create the new order is
  thrown again.
\<close>

definition updateStopOrder :: "gateway \<Rightarrow> nat \<Rightarrow> real \<Rightarrow> simulation \<Rightarrow> error + simulation" where
  "updateStopOrder gw i newStopPrice st =
     (case gw (orderCount st) of
        None \<Rightarrow> Inl GatewayError
      | Some oid \<Rightarrow>
          Inr (st\<lparr>positions := (positions st)[i := (positions st ! i)\<lparr>stopOrderId := Some oid\<rparr>],
                  orderCount := Suc (orderCount st)\<rparr>))"

text \<open>
  \<^verbatim>\<open>updateTrailingStops\<close>: the loop over \<^verbatim>\<open>this.positions\<close> by index, with its body for
  the position at index \<open>i\<close> as a function of its own.  An exception is caught, logged
  and emitted as the event \<^verbatim>\<open>error\<close>; the simulated bot of the backtester has no listener
  for that event, so the emit throws and the exception leaves \<^verbatim>\<open>run\<close>.  An order id is
  truthy when it is present and not zero.
\<close>

definition idTruthy :: "nat option \<Rightarrow> bool" where
  "idTruthy v = (case v of None \<Rightarrow> False | Some n \<Rightarrow> n \<noteq> 0)"

definition updateTrailingStopAt :: "gateway \<Rightarrow> nat \<Rightarrow> simulation \<Rightarrow> error + simulation" where
  "updateTrailingStopAt gw i st =
     (if status (positions st ! i) \<noteq> ACTIVE then Inr st
      else
        (let oldStop = currentTrailingStop (positions st ! i);
             r = updateTrailingStop (trailingStop st) (positions st ! i);
             newStop = fst r;
             st1 = st\<lparr>positions := (positions st)[i := snd r]\<rparr>
         in if newStop \<noteq> oldStop \<and> idTruthy (stopOrderId (positions st1 ! i))
            then updateStopOrder gw i newStop st1
            else Inr st1))"

fun updateTrailingStopsLoop :: "gateway \<Rightarrow> nat list \<Rightarrow> simulation \<Rightarrow> error + simulation" where
  "updateTrailingStopsLoop gw [] st = Inr st"
| "updateTrailingStopsLoop gw (i # rest) st =
     (case updateTrailingStopAt gw i st of
        Inl e \<Rightarrow> Inl e
      | Inr st1 \<Rightarrow> updateTrailingStopsLoop gw rest st1)"

definition updateTrailingStops :: "gateway \<Rightarrow> simulation \<Rightarrow> error + simulation" where
  "updateTrailingStops gw st = updateTrailingStopsLoop gw [0..<length (positions st)] st"

text \<open>
  \<^verbatim>\<open>closePosition(position, closePrice, reason)\<close> for the position at index \<open>i\<close>.  The
  market order is sent in live mode only and not for a reason that includesStr
  \<^verbatim>\<open>StopLoss\<close>.  The result of \<^verbatim>\<open>position.close\<close> is not looked at.
\<close>

definition makeTrade :: "position \<Rightarrow> real \<Rightarrow> string \<Rightarrow> trade" where
  "makeTrade p closePrice reason =
     \<lparr>t_symbol = symbol p, t_entryPrice = entryPrice p, t_exitPrice = closePrice,
      t_quantity = quantity p, t_profit = profit p, t_profitPercent = profitPercent p,
      t_openDate = openDate p, t_closeDate = closeDate p,
      t_holdingTimeMs = (case closeDate p of None \<Rightarrow> 0 | Some c \<Rightarrow> c) - openDate p,
      t_stopPrice = currentTrailingStop p, t_reason = reason\<rparr>"

definition closePosition ::
    "gateway \<Rightarrow> int \<Rightarrow> nat \<Rightarrow> real \<Rightarrow> string \<Rightarrow> simulation \<Rightarrow> error + (trade \<times> simulation)" where
  "closePosition gw now i closePrice reason st =
     (let sell = (tradingMode st = Live \<and> \<not> includesStr reason ''StopLoss'')
      in if sell \<and> gw (orderCount st) = None then Inl GatewayError
         else
           (let st1 = (if sell then st\<lparr>orderCount := Suc (orderCount st)\<rparr> else st);
                p = snd (close now closePrice reason (positions st1 ! i));
                t = makeTrade p closePrice reason
            in Inr (t, st1\<lparr>positions := (positions st1)[i := p],
                          profitHistory := profitHistory st1 @ [t],
                          resultsTrades := resultsTrades st1 @ [t]\<rparr>)))"

text \<open>\<^verbatim>\<open>getActivePositions\<close>, as the indices of the positions that the filter keeps.\<close>

definition getActivePositions :: "simulation \<Rightarrow> nat list" where
  "getActivePositions st =
     filter (\<lambda>i. status (positions st ! i) = ACTIVE) [0..<length (positions st)]"

text \<open>
  The loop over \<^verbatim>\<open>activePositions\<close> in \<^verbatim>\<open>Backtester.run\<close> for one kline (lines 214 to
  242), with its body for the position at index \<open>i\<close> as a function of its own; \<open>now\<close> is
  the reading of the clock when a position is closed.
\<close>

definition processPosition ::
    "gateway \<Rightarrow> int \<Rightarrow> kline \<Rightarrow> nat \<Rightarrow> simulation \<Rightarrow> error + simulation" where
  "processPosition gw now k i st =
     (let p1 = updateProfit ((positions st ! i)\<lparr>currentPrice := k_close k\<rparr>);
          st1 = st\<lparr>positions := (positions st)[i := p1]\<rparr>
      in if currentTrailingStop p1 > 0 \<and> low k \<le> currentTrailingStop p1 then
           (case closePosition gw now i (currentTrailingStop p1) ''StopLoss (Backtest)'' st1 of
              Inl e \<Rightarrow> Inl e
            | Inr r \<Rightarrow> Inr (snd r))
         else
           (let p2 = (if high k > highestPrice p1 then p1\<lparr>highestPrice := high k\<rparr> else p1);
                st2 = st1\<lparr>positions := (positions st1)[i := p2]\<rparr>
            in if status p2 = ACTIVE then updateTrailingStops gw st2 else Inr st2))"

fun processPositions ::
    "gateway \<Rightarrow> int \<Rightarrow> kline \<Rightarrow> nat list \<Rightarrow> simulation \<Rightarrow> error + simulation" where
  "processPositions gw now k [] st = Inr st"
| "processPositions gw now k (i # rest) st =
     (case processPosition gw now k i st of
        Inl e \<Rightarrow> Inl e
      | Inr st1 \<Rightarrow> processPositions gw now k rest st1)"

text \<open>One pass of the simulation loop: the loop over the positions, then line 244.\<close>

definition processKline :: "gateway \<Rightarrow> int \<Rightarrow> kline \<Rightarrow> simulation \<Rightarrow> error + simulation" where
  "processKline gw now k st =
     (case processPositions gw now k (getActivePositions st) st of
        Inl e \<Rightarrow> Inl e
      | Inr st1 \<Rightarrow> updateTrailingStops gw st1)"

section \<open>The batched step of the specification\<close>

text \<open>
  The per-candle step as the specification words it (section 4.5, steps 1 to 4): every
  active position gets the close as current price, is closed at its stop with the reason
  \<^verbatim>\<open>StopLoss\<close> when the low triggers it, and has its highest price raised otherwise; after
  all positions have been updated, one pass of the trailing-stop update runs over the
  active positions.
\<close>

definition spec_updatePosition :: "int \<Rightarrow> kline \<Rightarrow> position \<Rightarrow> position" where
  "spec_updatePosition now k p =
     (if status p \<noteq> ACTIVE then p
      else
        (let p1 = updateProfit (p\<lparr>currentPrice := k_close k\<rparr>)
         in if currentTrailingStop p1 > 0 \<and> low k \<le> currentTrailingStop p1
            then snd (close now (currentTrailingStop p1) ''StopLoss'' p1)
            else if high k > highestPrice p1 then p1\<lparr>highestPrice := high k\<rparr> else p1))"

definition spec_batchedUpdate :: "settings \<Rightarrow> position \<Rightarrow> position" where
  "spec_batchedUpdate cfg p =
     (if status p = ACTIVE then snd (updateTrailingStop cfg p) else p)"

definition spec_processKline :: "int \<Rightarrow> settings \<Rightarrow> kline \<Rightarrow> position list \<Rightarrow> position list" where
  "spec_processKline now cfg k ps =
     map (spec_batchedUpdate cfg) (map (spec_updatePosition now k) ps)"

section \<open>Notions for the comparison of the two steps\<close>

text \<open>Status and stop of every position of a result, when there is one.\<close>

definition statusAndStop :: "position \<Rightarrow> status \<times> real" where
  "statusAndStop p = (status p, currentTrailingStop p)"

definition stopsOf :: "error + simulation \<Rightarrow> (status \<times> real) list option" where
  "stopsOf r = (case r of Inl e \<Rightarrow> None | Inr st \<Rightarrow> Some (map statusAndStop (positions st)))"

text \<open>A position without its stop order id.\<close>

definition noOrder :: "position \<Rightarrow> position" where
  "noOrder p = p\<lparr>stopOrderId := None\<rparr>"

text \<open>
  A position is settled for the configured settings when it is not active, or when its
  stop is positive and a call of \<^verbatim>\<open>updateTrailingStop\<close> leaves the position as it is: the
  state in which a completed pass of \<^verbatim>\<open>updateTrailingStops\<close> leaves a position whose stop
  was set before.
\<close>

definition settled :: "settings \<Rightarrow> position \<Rightarrow> bool" where
  "settled cfg p =
     (status p \<noteq> ACTIVE \<or>
      (0 < currentTrailingStop p \<and> snd (updateTrailingStop cfg p) = p))"

text \<open>The position with the resolved settings stored, as every call leaves them.\<close>

definition resolved :: "settings \<Rightarrow> position \<Rightarrow> position" where
  "resolved cfg p =
     p\<lparr>trailingSettings := assignSettings (resolveSettings cfg p) (trailingSettings p)\<rparr>"

text \<open>
  A position is calm for the configured settings when it is not active, or when its stop
  is positive and a call of \<^verbatim>\<open>updateTrailingStop\<close> changes nothing but the stored settings.
\<close>

definition calm :: "settings \<Rightarrow> position \<Rightarrow> bool" where
  "calm cfg p =
     (status p \<noteq> ACTIVE \<or>
      (0 < currentTrailingStop p \<and> snd (updateTrailingStop cfg p) = resolved cfg p))"

text \<open>
  The position \<open>q\<close> is the position \<open>t\<close> up to the stop order id and up to the storing
  of the resolved settings.
\<close>

definition sameUpTo :: "settings \<Rightarrow> position \<Rightarrow> position \<Rightarrow> bool" where
  "sameUpTo cfg t q = (noOrder q = noOrder t \<or> noOrder q = noOrder (resolved cfg t))"

text \<open>What passes of \<^verbatim>\<open>updateTrailingStops\<close> can do to a position.\<close>

definition passed :: "position \<Rightarrow> position \<Rightarrow> bool" where
  "passed p q =
     (status q = status p \<and> highestPrice q = highestPrice p \<and>
      (status p \<noteq> ACTIVE \<longrightarrow> q = p) \<and>
      (0 < currentTrailingStop p \<longrightarrow> currentTrailingStop p \<le> currentTrailingStop q))"

text \<open>
  The effect of passes of \<^verbatim>\<open>updateTrailingStops\<close> on a state: only positions and the
  order count change, and every position changes as a pass can change it.
\<close>

definition passedState :: "simulation \<Rightarrow> simulation \<Rightarrow> bool" where
  "passedState st st' =
     (trailingStop st' = trailingStop st \<and> tradingMode st' = tradingMode st \<and>
      profitHistory st' = profitHistory st \<and> resultsTrades st' = resultsTrades st \<and>
      length (positions st') = length (positions st) \<and>
      (\<forall>j<length (positions st). passed (positions st ! j) (positions st' ! j)))"

text \<open>The trade that a triggered stop records for a position.\<close>

definition stopLossTrade :: "int \<Rightarrow> kline \<Rightarrow> position \<Rightarrow> trade" where
  "stopLossTrade now k p =
     makeTrade (candleTurn now k p) (currentTrailingStop p) ''StopLoss (Backtest)''"

text \<open>
  The effect of the loop body for the positions with an index in \<open>J\<close> on the rest of the
  state: the other positions change as passes can change them, and the trade lists grow.
\<close>

definition turned :: "nat set \<Rightarrow> simulation \<Rightarrow> simulation \<Rightarrow> bool" where
  "turned J st st' =
     (trailingStop st' = trailingStop st \<and> tradingMode st' = tradingMode st \<and>
      set (profitHistory st) \<subseteq> set (profitHistory st') \<and>
      set (resultsTrades st) \<subseteq> set (resultsTrades st') \<and>
      length (positions st') = length (positions st) \<and>
      (\<forall>j<length (positions st). j \<notin> J \<longrightarrow> passed (positions st ! j) (positions st' ! j)))"

text \<open>The closed trades of a result, when there is one.\<close>

definition tradesOf :: "error + simulation \<Rightarrow> trade list" where
  "tradesOf r = (case r of Inl e \<Rightarrow> [] | Inr st \<Rightarrow> profitHistory st)"

text \<open>
  Position \<open>i\<close> of the state \<open>st'\<close> was closed at its stop at the time \<open>now\<close>, and the
  trade is recorded in both lists.
\<close>

definition closedAtStop :: "int \<Rightarrow> nat \<Rightarrow> simulation \<Rightarrow> bool" where
  "closedAtStop now i st' =
     (status (positions st' ! i) = CLOSED \<and>
      closeDate (positions st' ! i) = Some now \<and>
      currentPrice (positions st' ! i) = currentTrailingStop (positions st' ! i) \<and>
      makeTrade (positions st' ! i) (currentTrailingStop (positions st' ! i))
        ''StopLoss (Backtest)'' \<in> set (profitHistory st') \<and>
      makeTrade (positions st' ! i) (currentTrailingStop (positions st' ! i))
        ''StopLoss (Backtest)'' \<in> set (resultsTrades st'))"

section \<open>Example data\<close>

definition exampleTrade :: "real \<Rightarrow> trade" where
  "exampleTrade pr =
     \<lparr>t_symbol = ''BTCUSDT'', t_entryPrice = 100, t_exitPrice = 100 + pr, t_quantity = 1,
      t_profit = pr, t_profitPercent = pr, t_openDate = 0, t_closeDate = Some 1000,
      t_holdingTimeMs = 1000, t_stopPrice = 100 + pr, t_reason = ''StopLoss (Backtest)''\<rparr>"

definition exampleKline :: "int \<Rightarrow> real \<Rightarrow> kline" where
  "exampleKline t c =
     \<lparr>openTime = t, k_open = c, high = c, low = c, k_close = c, volume = 1,
      closeTime = t + 59, quoteVolume = 1, trades = 1, buyVolume = 1, buyQuoteVolume = 1\<rparr>"

definition examplePosition :: "real \<Rightarrow> real \<Rightarrow> real \<Rightarrow> position" where
  "examplePosition price highest stop =
     (newPosition 0 ''BTCUSDT'' 100 1 None)
       \<lparr>status := ACTIVE, currentPrice := price, highestPrice := highest,
        initialStopPrice := stop, currentTrailingStop := stop\<rparr>"

definition zeroSettings :: settings where
  "zeroSettings =
     \<lparr>initialStopDistancePercent = Some 0,
      activationThresholdPercent = Some 0,
      trailingDistancePercent = Some 0\<rparr>"

definition storedSettings :: settings where
  "storedSettings =
     \<lparr>initialStopDistancePercent = Some 5,
      activationThresholdPercent = Some 4,
      trailingDistancePercent = Some 3\<rparr>"

definition exampleEvents :: "event list" where
  "exampleEvents =
     [Candle 1 (exampleKline 60 104), UpdateStop unsetSettings,
      Refresh 102, UpdateStop unsetSettings]"

definition exampleSimulation :: "position list \<Rightarrow> simulation" where
  "exampleSimulation ps =
     \<lparr>positions = ps, profitHistory = [], trailingStop = unsetSettings, tradingMode = Paper,
      resultsTrades = [], orderCount = 0\<rparr>"

definition exampleCandle :: "real \<Rightarrow> real \<Rightarrow> real \<Rightarrow> kline" where
  "exampleCandle h l c =
     \<lparr>openTime = 0, k_open = c, high = h, low = l, k_close = c, volume = 1,
      closeTime = 59, quoteVolume = 1, trades = 1, buyVolume = 1, buyQuoteVolume = 1\<rparr>"

definition exampleGateway :: gateway where
  "exampleGateway n = Some (Suc n)"

text \<open>
  Two positions as \<^verbatim>\<open>createNewPosition\<close> leaves them once the initial stop has been set:
  active, with a stop, and with no stored settings yet.
\<close>

definition freshExample :: "position list" where
  "freshExample = [examplePosition 100 100 98, examplePosition 100 100 99]"

section \<open>Basic facts about the position methods\<close>

lemma js_or_num_nonzero: "d \<noteq> 0 \<Longrightarrow> js_or_num a d \<noteq> 0"
  by (simp add: js_or_num_def split: option.splits)

lemma js_or_num_idem:
  "d \<noteq> 0 \<Longrightarrow> js_or_num (js_or a (Some (js_or_num (js_or a b) d))) d = js_or_num (js_or a b) d"
  by (simp add: js_or_num_def js_or_def js_truthy_def split: option.splits)

lemma resolveSettings_nonzero:
  "a_initialStopDistancePercent (resolveSettings s p) \<noteq> 0"
  "a_activationThresholdPercent (resolveSettings s p) \<noteq> 0"
  "a_trailingDistancePercent (resolveSettings s p) \<noteq> 0"
  by (simp_all add: resolveSettings_def js_or_num_nonzero)

lemma resolveSettings_cong:
  "trailingSettings q = trailingSettings p \<Longrightarrow> resolveSettings s q = resolveSettings s p"
  by (simp add: resolveSettings_def)

lemma resolveSettings_assign:
  "trailingSettings q = assignSettings (resolveSettings s p) (trailingSettings p) \<Longrightarrow>
   resolveSettings s q = resolveSettings s p"
  by (simp add: resolveSettings_def assignSettings_def js_or_num_idem)

lemma assignSettings_idem: "assignSettings a (assignSettings a ts) = assignSettings a ts"
  by (simp add: assignSettings_def)

lemma updateTrailingStop_settings:
  "trailingSettings (snd (updateTrailingStop s p)) =
     assignSettings (resolveSettings s p) (trailingSettings p)"
  by (simp add: updateTrailingStop_def setInitialStop_def updateProfit_def Let_def)

lemma updateProfit_idem: "updateProfit (updateProfit p) = updateProfit p"
  by (simp add: updateProfit_def)

lemma updateTrailingStop_fst: "fst (updateTrailingStop s p) = currentTrailingStop (snd (updateTrailingStop s p))"
  by (simp add: updateTrailingStop_def setInitialStop_def Let_def)


lemma updateProfit_fields [simp]:
  "currentTrailingStop (updateProfit p) = currentTrailingStop p"
  "highestPrice (updateProfit p) = highestPrice p"
  "currentPrice (updateProfit p) = currentPrice p"
  "entryPrice (updateProfit p) = entryPrice p"
  "quantity (updateProfit p) = quantity p"
  "status (updateProfit p) = status p"
  "trailingSettings (updateProfit p) = trailingSettings p"
  "initialStopPrice (updateProfit p) = initialStopPrice p"
  "stopOrderId (updateProfit p) = stopOrderId p"
  by (simp_all add: updateProfit_def)

lemma updateProfit_settings_commute:
  "updateProfit (p\<lparr>trailingSettings := ts\<rparr>) = (updateProfit p)\<lparr>trailingSettings := ts\<rparr>"
  by (simp add: updateProfit_def)

lemma updateProfit_stop_commute:
  "updateProfit (p\<lparr>currentTrailingStop := v\<rparr>) = (updateProfit p)\<lparr>currentTrailingStop := v\<rparr>"
  by (simp add: updateProfit_def)

lemma updateTrailingStop_set:
  assumes "currentTrailingStop p \<noteq> 0"
  shows "updateTrailingStop s p =
    (let a = resolveSettings s p;
         p2 = updateProfit (p\<lparr>trailingSettings := assignSettings a (trailingSettings p)\<rparr>);
         np = highestPrice p - highestPrice p * (a_trailingDistancePercent a / 100)
     in if profitPercent p2 < a_activationThresholdPercent a then (currentTrailingStop p, p2)
        else if currentTrailingStop p < np then (np, p2\<lparr>currentTrailingStop := np\<rparr>)
        else (currentTrailingStop p, p2))"
  using assms by (simp add: updateTrailingStop_def Let_def)


lemma updateTrailingStop_idem:
  assumes nz: "currentTrailingStop p \<noteq> 0"
      and nz': "currentTrailingStop (snd (updateTrailingStop s p)) \<noteq> 0"
  shows "updateTrailingStop s (snd (updateTrailingStop s p)) = updateTrailingStop s p"
proof -
  define a where "a = resolveSettings s p"
  define p2 where "p2 = updateProfit (p\<lparr>trailingSettings := assignSettings a (trailingSettings p)\<rparr>)"
  define np where "np = highestPrice p - highestPrice p * (a_trailingDistancePercent a / 100)"
  define q where "q = snd (updateTrailingStop s p)"
  have first: "updateTrailingStop s p =
      (if profitPercent p2 < a_activationThresholdPercent a then (currentTrailingStop p, p2)
       else if currentTrailingStop p < np then (np, p2\<lparr>currentTrailingStop := np\<rparr>)
       else (currentTrailingStop p, p2))"
    using updateTrailingStop_set [OF nz, of s] by (simp add: Let_def a_def p2_def np_def)
  have q_set: "trailingSettings q = assignSettings a (trailingSettings p)"
    by (simp add: q_def a_def updateTrailingStop_settings)
  have q_res: "resolveSettings s q = a"
    unfolding a_def by (rule resolveSettings_assign) (simp add: q_set a_def)
  have p2_fix: "updateProfit (p2\<lparr>trailingSettings := assignSettings a (trailingSettings p2)\<rparr>) = p2"
    by (simp add: p2_def updateProfit_settings_commute updateProfit_idem assignSettings_idem)
  have q_nz: "currentTrailingStop q \<noteq> 0" using nz' by (simp add: q_def)
  have second: "updateTrailingStop s q =
      (let q2 = updateProfit (q\<lparr>trailingSettings := assignSettings a (trailingSettings q)\<rparr>);
           nq = highestPrice q - highestPrice q * (a_trailingDistancePercent a / 100)
       in if profitPercent q2 < a_activationThresholdPercent a then (currentTrailingStop q, q2)
          else if currentTrailingStop q < nq then (nq, q2\<lparr>currentTrailingStop := nq\<rparr>)
          else (currentTrailingStop q, q2))"
    using updateTrailingStop_set [OF q_nz, of s] by (simp add: Let_def q_res)
  consider (gate) "profitPercent p2 < a_activationThresholdPercent a"
    | (raise) "\<not> profitPercent p2 < a_activationThresholdPercent a" "currentTrailingStop p < np"
    | (keep) "\<not> profitPercent p2 < a_activationThresholdPercent a" "\<not> currentTrailingStop p < np"
    by blast
  then have "updateTrailingStop s q = updateTrailingStop s p"
  proof cases
    case gate
    then have qq: "q = p2" by (simp add: q_def first)
    have "updateProfit (q\<lparr>trailingSettings := assignSettings a (trailingSettings q)\<rparr>) = q"
      unfolding qq by (rule p2_fix)
    then show ?thesis using gate
      by (simp add: second first Let_def) (simp add: qq p2_def)
  next
    case raise
    then have qq: "q = p2\<lparr>currentTrailingStop := np\<rparr>" by (simp add: q_def first)
    have "updateProfit (q\<lparr>trailingSettings := assignSettings a (trailingSettings q)\<rparr>) =
          (updateProfit (p2\<lparr>trailingSettings := assignSettings a (trailingSettings p2)\<rparr>))
            \<lparr>currentTrailingStop := np\<rparr>"
      by (simp add: qq updateProfit_stop_commute updateProfit_settings_commute)
    then have "updateProfit (q\<lparr>trailingSettings := assignSettings a (trailingSettings q)\<rparr>) = q"
      by (simp only: p2_fix qq)
    then show ?thesis using raise
      by (simp add: second first Let_def) (simp add: qq p2_def np_def)
  next
    case keep
    then have qq: "q = p2" by (simp add: q_def first)
    have "updateProfit (q\<lparr>trailingSettings := assignSettings a (trailingSettings q)\<rparr>) = q"
      unfolding qq by (rule p2_fix)
    then show ?thesis using keep
      by (simp add: second first Let_def) (simp add: qq p2_def np_def)
  qed
  then show ?thesis by (simp add: q_def)
qed

section \<open>First initialisation of the stop\<close>

lemma updateTrailingStop_unset:
  assumes "currentTrailingStop p = 0"
  shows "updateTrailingStop s p =
           (entryPrice p - entryPrice p * (a_initialStopDistancePercent (resolveSettings s p) / 100),
            p\<lparr>trailingSettings := assignSettings (resolveSettings s p) (trailingSettings p),
              initialStopPrice :=
                entryPrice p - entryPrice p * (a_initialStopDistancePercent (resolveSettings s p) / 100),
              currentTrailingStop :=
                entryPrice p - entryPrice p * (a_initialStopDistancePercent (resolveSettings s p) / 100)\<rparr>)"
  using assms by (simp add: updateTrailingStop_def setInitialStop_def Let_def)

text \<open>
  C8.  When \<^verbatim>\<open>currentTrailingStop\<close> is zero, \<^verbatim>\<open>updateTrailingStop\<close> sets both
  \<^verbatim>\<open>initialStopPrice\<close> and \<^verbatim>\<open>currentTrailingStop\<close> to
  \<open>entryPrice - entryPrice * (initialStopDistancePercent / 100)\<close> and returns that value,
  whatever the current price, the highest price and the activation threshold are (the
  activation check is not applied: nothing else of the position changes but the stored
  settings); with an entry price of 100 and a distance of 2 percent the value is 98.
\<close>

theorem updateTrailingStop_initial_stop:
  "currentTrailingStop p = 0 \<longrightarrow>
     (let d = a_initialStopDistancePercent (resolveSettings s p);
          v = entryPrice p - entryPrice p * (d / 100);
          r = updateTrailingStop s p
      in fst r = v \<and> initialStopPrice (snd r) = v \<and> currentTrailingStop (snd r) = v \<and>
         currentPrice (snd r) = currentPrice p \<and> highestPrice (snd r) = highestPrice p \<and>
         profit (snd r) = profit p \<and> profitPercent (snd r) = profitPercent p \<and>
         status (snd r) = status p \<and>
         (entryPrice p = 100 \<and> d = 2 \<longrightarrow> fst r = 98))"
  by (simp add: updateTrailingStop_unset Let_def)

theorem updateTrailingStop_initial_stop_witness:
  "fst (updateTrailingStop unsetSettings
          ((newPosition 0 ''BTCUSDT'' 100 1 None)\<lparr>status := ACTIVE, currentPrice := 150\<rparr>)) = 98"
  using updateTrailingStop_initial_stop
    [of "(newPosition 0 ''BTCUSDT'' 100 1 None)\<lparr>status := ACTIVE, currentPrice := 150\<rparr>"
        unsetSettings]
  by (simp add: Let_def newPosition_def unsetSettings_def resolveSettings_def
      js_or_def js_or_num_def js_truthy_def)

section \<open>Statistics\<close>

lemma statsStep_win:
  "t_profit t > 0 \<Longrightarrow>
     totalLossAmount (statsStep l t) = totalLossAmount l \<and>
     totalWinAmount (statsStep l t) = totalWinAmount l + t_profit t"
  by (simp add: statsStep_def Let_def)

lemma foldl_statsStep_win:
  "\<forall>t\<in>set h. t_profit t > 0 \<Longrightarrow>
     totalLossAmount (foldl statsStep l h) = totalLossAmount l \<and>
     totalWinAmount (foldl statsStep l h) = totalWinAmount l + sum_list (map t_profit h)"
proof (induction h arbitrary: l)
  case Nil
  then show ?case by simp
next
  case (Cons t h)
  then show ?case using statsStep_win [of t l] by simp
qed

lemma getStatistics_profitFactor:
  "h \<noteq> [] \<Longrightarrow> profitFactor (getStatistics h) =
     (if totalLossAmount (statsLoopRun h) > 0
      then totalWinAmount (statsLoopRun h) / totalLossAmount (statsLoopRun h)
      else totalWinAmount (statsLoopRun h))"
  by (simp add: getStatistics_def Let_def)

text \<open>
  C9.  \<^verbatim>\<open>getStatistics\<close> returns the record with every field zero when the history is
  empty.  When the loop ends with \<^verbatim>\<open>totalLossAmount\<close> zero, \<^verbatim>\<open>profitFactor\<close> is
  \<^verbatim>\<open>totalWinAmount\<close> (no division takes place); a history of winning trades only is
  such a case, and there \<^verbatim>\<open>profitFactor\<close> is the sum of the profits.
\<close>

theorem getStatistics_edge_cases:
  "getStatistics [] =
     \<lparr>totalTrades = 0, winningTrades = 0, losingTrades = 0,
      totalProfit = 0, totalProfitPercent = 0, biggestWin = 0, biggestLoss = 0,
      averageProfit = 0, averageProfitPercent = 0, winRate = 0, profitFactor = 0,
      averageHoldingTimeMs = 0, averageHoldingTimeHours = 0\<rparr> \<and>
   (h \<noteq> [] \<and> totalLossAmount (statsLoopRun h) = 0 \<longrightarrow>
      profitFactor (getStatistics h) = totalWinAmount (statsLoopRun h)) \<and>
   (h \<noteq> [] \<and> (\<forall>t\<in>set h. t_profit t > 0) \<longrightarrow>
      totalLossAmount (statsLoopRun h) = 0 \<and>
      totalWinAmount (statsLoopRun h) = sum_list (map t_profit h) \<and>
      profitFactor (getStatistics h) = sum_list (map t_profit h))"
proof (intro conjI impI)
  show "getStatistics [] =
     \<lparr>totalTrades = 0, winningTrades = 0, losingTrades = 0,
      totalProfit = 0, totalProfitPercent = 0, biggestWin = 0, biggestLoss = 0,
      averageProfit = 0, averageProfitPercent = 0, winRate = 0, profitFactor = 0,
      averageHoldingTimeMs = 0, averageHoldingTimeHours = 0\<rparr>"
    by (simp add: getStatistics_def zeroStats_def)
next
  assume "h \<noteq> [] \<and> totalLossAmount (statsLoopRun h) = 0"
  then show "profitFactor (getStatistics h) = totalWinAmount (statsLoopRun h)"
    by (simp add: getStatistics_profitFactor)
next
  assume a: "h \<noteq> [] \<and> (\<forall>t\<in>set h. 0 < t_profit t)"
  then have w: "totalLossAmount (statsLoopRun h) = 0 \<and>
      totalWinAmount (statsLoopRun h) = sum_list (map t_profit h)"
    using foldl_statsStep_win [of h] by (simp add: statsLoopRun_def)
  from w show "totalLossAmount (statsLoopRun h) = 0" by simp
  from w show "totalWinAmount (statsLoopRun h) = sum_list (map t_profit h)" by simp
  from a w show "profitFactor (getStatistics h) = sum_list (map t_profit h)"
    by (simp add: getStatistics_profitFactor)
qed

theorem getStatistics_edge_cases_witness:
  "profitFactor (getStatistics [exampleTrade 3, exampleTrade 4]) = 7"
  using getStatistics_edge_cases [of "[exampleTrade 3, exampleTrade 4]"]
  by (simp add: exampleTrade_def)

section \<open>Post-processing of the historical data\<close>

lemma uniqueLoop_append:
  "uniqueLoop seen acc ks = acc @ uniqueLoop seen [] ks"
proof (induction ks arbitrary: seen acc)
  case Nil
  then show ?case by simp
next
  case (Cons k ks)
  show ?case
  proof (cases "openTime k \<in> seen")
    case True
    then show ?thesis using Cons.IH [of seen acc] by simp
  next
    case False
    then show ?thesis
      using Cons.IH [of "insert (openTime k) seen" "acc @ [k]"]
            Cons.IH [of "insert (openTime k) seen" "[k]"]
      by simp
  qed
qed

lemma uniqueLoop_Cons:
  "uniqueLoop seen [] (k # ks) =
     (if openTime k \<in> seen then uniqueLoop seen [] ks
      else k # uniqueLoop (insert (openTime k) seen) [] ks)"
  using uniqueLoop_append [of "insert (openTime k) seen" "[k]" ks] by simp

lemma uniqueLoop_subset: "set (uniqueLoop seen [] ks) \<subseteq> set ks"
proof (induction ks arbitrary: seen)
  case Nil
  then show ?case by simp
next
  case (Cons k ks)
  then show ?case unfolding uniqueLoop_Cons by (simp add: subset_insertI2)
qed

lemma uniqueLoop_unseen: "x \<in> set (uniqueLoop seen [] ks) \<Longrightarrow> openTime x \<notin> seen"
proof (induction ks arbitrary: seen)
  case Nil
  then show ?case by simp
next
  case (Cons k ks)
  then show ?case unfolding uniqueLoop_Cons
    by (cases "openTime k \<in> seen") (simp, fastforce)
qed


lemma uniqueLoop_distinct: "distinct (map openTime (uniqueLoop seen [] ks))"
proof (induction ks arbitrary: seen)
  case Nil
  then show ?case by simp
next
  case (Cons k ks)
  show ?case
  proof (cases "openTime k \<in> seen")
    case True
    then show ?thesis using Cons.IH [of seen] by (simp del: uniqueLoop.simps add: uniqueLoop_Cons)
  next
    case False
    have "openTime k \<notin> openTime ` set (uniqueLoop (insert (openTime k) seen) [] ks)"
    proof
      assume "openTime k \<in> openTime ` set (uniqueLoop (insert (openTime k) seen) [] ks)"
      then obtain x where x: "x \<in> set (uniqueLoop (insert (openTime k) seen) [] ks)"
        and e: "openTime k = openTime x" by blast
      from x have "openTime x \<notin> insert (openTime k) seen" by (rule uniqueLoop_unseen)
      with e show False by simp
    qed
    then show ?thesis
      using False Cons.IH [of "insert (openTime k) seen"]
      by (simp del: uniqueLoop.simps add: uniqueLoop_Cons)
  qed
qed

lemma uniqueLoop_first:
  "x \<in> set (uniqueLoop seen [] ks) \<Longrightarrow> find (\<lambda>y. openTime y = openTime x) ks = Some x"
proof (induction ks arbitrary: seen)
  case Nil
  then show ?case by simp
next
  case (Cons k ks)
  show ?case
  proof (cases "openTime k \<in> seen")
    case True
    then have x: "x \<in> set (uniqueLoop seen [] ks)" using Cons.prems by (simp del: uniqueLoop.simps add: uniqueLoop_Cons)
    then have "openTime x \<notin> seen" by (rule uniqueLoop_unseen)
    then have "openTime k \<noteq> openTime x" using True by auto
    then show ?thesis using Cons.IH [OF x] by simp
  next
    case False
    then have "x = k \<or> x \<in> set (uniqueLoop (insert (openTime k) seen) [] ks)"
      using Cons.prems by (simp del: uniqueLoop.simps add: uniqueLoop_Cons)
    then show ?thesis
    proof
      assume "x = k"
      then show ?thesis by simp
    next
      assume x: "x \<in> set (uniqueLoop (insert (openTime k) seen) [] ks)"
      then have "openTime x \<notin> insert (openTime k) seen" by (rule uniqueLoop_unseen)
      then have "openTime k \<noteq> openTime x" by auto
      then show ?thesis using Cons.IH [OF x] by simp
    qed
  qed
qed

lemma uniqueLoop_times:
  "openTime ` set (uniqueLoop seen [] ks) = openTime ` set ks - seen"
proof (induction ks arbitrary: seen)
  case Nil
  then show ?case by simp
next
  case (Cons k ks)
  show ?case
  proof (cases "openTime k \<in> seen")
    case True
    then show ?thesis using Cons.IH [of seen] by (auto simp del: uniqueLoop.simps simp add: uniqueLoop_Cons)
  next
    case False
    then show ?thesis using Cons.IH [of "insert (openTime k) seen"]
      by (auto simp del: uniqueLoop.simps simp add: uniqueLoop_Cons)
  qed
qed

lemma postProcess_set:
  "set (postProcess a b d) = set (uniqueLoop {} [] (filter (inRange a b) d))"
  by (simp add: postProcess_def Let_def)

lemma postProcess_distinct: "distinct (map openTime (postProcess a b d))"
  using uniqueLoop_distinct [of "{}" "filter (inRange a b) d"]
  by (simp add: postProcess_def Let_def distinct_map)

lemma postProcess_sorted: "sorted (map openTime (postProcess a b d))"
  by (simp add: postProcess_def Let_def)

text \<open>
  C7.  For every accumulated list of klines, pages that overlap included, the
  post-processing of \<^verbatim>\<open>loadHistoricalData\<close> yields a list whose open times are strictly
  ascending and without duplicates, that holds only klines of the input with
  \<open>openTime \<ge> startDate\<close> and \<open>closeTime \<le> endDate\<close>, and in which the kline kept for an
  open time is the first one of the klines in the range that has this open time; every
  open time of a kline in the range is kept.
\<close>

theorem postProcess_unique_ascending:
  "sorted_wrt (<) (map openTime (postProcess a b d)) \<and>
   distinct (map openTime (postProcess a b d)) \<and>
   (\<forall>k\<in>set (postProcess a b d). k \<in> set d \<and> openTime k \<ge> a \<and> closeTime k \<le> b) \<and>
   (\<forall>k\<in>set (postProcess a b d).
      find (\<lambda>x. openTime x = openTime k) (filter (inRange a b) d) = Some k) \<and>
   openTime ` set (postProcess a b d) = openTime ` {k \<in> set d. inRange a b k}"
proof (intro conjI ballI)
  show "sorted_wrt (<) (map openTime (postProcess a b d))"
    using postProcess_sorted [of a b d] postProcess_distinct [of a b d]
    by (simp add: strict_sorted_iff)
  show "distinct (map openTime (postProcess a b d))" by (rule postProcess_distinct)
next
  fix k assume "k \<in> set (postProcess a b d)"
  then have "k \<in> set (filter (inRange a b) d)"
    using uniqueLoop_subset [of "{}" "filter (inRange a b) d"] by (auto simp: postProcess_set)
  then show "k \<in> set d" "openTime k \<ge> a" "closeTime k \<le> b" by (simp_all add: inRange_def)
next
  fix k assume "k \<in> set (postProcess a b d)"
  then show "find (\<lambda>x. openTime x = openTime k) (filter (inRange a b) d) = Some k"
    by (simp add: postProcess_set uniqueLoop_first)
next
  show "openTime ` set (postProcess a b d) = openTime ` {k \<in> set d. inRange a b k}"
    by (simp add: postProcess_set uniqueLoop_times)
qed

lemma postProcess_example:
  "postProcess 0 200
     [exampleKline 60 2, exampleKline 0 1, exampleKline 120 3,
      exampleKline 60 7, exampleKline 120 8, exampleKline 180 4] =
   [exampleKline 0 1, exampleKline 60 2, exampleKline 120 3]"
  by (simp add: postProcess_def exampleKline_def inRange_def Let_def)

theorem postProcess_unique_ascending_witness:
  "exampleKline 60 2 \<in> set (postProcess 0 200
     [exampleKline 60 2, exampleKline 0 1, exampleKline 120 3,
      exampleKline 60 7, exampleKline 120 8, exampleKline 180 4]) \<and>
   find (\<lambda>x. openTime x = openTime (exampleKline 60 2))
     (filter (inRange 0 200)
       [exampleKline 60 2, exampleKline 0 1, exampleKline 120 3,
        exampleKline 60 7, exampleKline 120 8, exampleKline 180 4]) = Some (exampleKline 60 2) \<and>
   closeTime (exampleKline 60 2) \<le> 200"
proof -
  let ?d = "[exampleKline 60 2, exampleKline 0 1, exampleKline 120 3,
      exampleKline 60 7, exampleKline 120 8, exampleKline 180 4]"
  have m: "exampleKline 60 2 \<in> set (postProcess 0 200 ?d)"
    by (simp add: postProcess_example)
  from postProcess_unique_ascending [of 0 200 ?d] m show ?thesis by blast
qed

section \<open>The trailing stop: settings, activation gate, repeated calls\<close>

lemma resolveSettings_unset:
  "s = unsetSettings \<Longrightarrow> trailingSettings p = unsetSettings \<Longrightarrow>
   resolveSettings s p =
     \<lparr>a_initialStopDistancePercent = 2, a_activationThresholdPercent = 1,
      a_trailingDistancePercent = 3 / 2\<rparr>"
  by (simp add: resolveSettings_def unsetSettings_def js_or_def js_or_num_def js_truthy_def)

lemma resolveSettings_stored:
  "trailingSettings q = assignSettings (resolveSettings s p) ts \<Longrightarrow>
   assignSettings (resolveSettings unsetSettings q) (trailingSettings q) = trailingSettings q"
  using resolveSettings_nonzero [of s p]
  by (simp add: resolveSettings_def unsetSettings_def js_or_def js_or_num_def js_truthy_def
      assignSettings_def)

text \<open>
  C10.  Every call of \<^verbatim>\<open>updateTrailingStop\<close>, whichever branch it takes, stores the
  resolved triple in \<^verbatim>\<open>trailingSettings\<close>: the three keys hold numbers afterwards, a later
  call without call-site settings keeps them, and a position whose settings were unset
  holds the defaults 2, 1 and 1.5 after a call without call-site settings.
\<close>

theorem updateTrailingStop_overwrites_settings:
  "trailingSettings (snd (updateTrailingStop s p)) =
     \<lparr>initialStopDistancePercent = Some (a_initialStopDistancePercent (resolveSettings s p)),
      activationThresholdPercent = Some (a_activationThresholdPercent (resolveSettings s p)),
      trailingDistancePercent = Some (a_trailingDistancePercent (resolveSettings s p))\<rparr> \<and>
   trailingSettings (snd (updateTrailingStop unsetSettings (snd (updateTrailingStop s p)))) =
     trailingSettings (snd (updateTrailingStop s p)) \<and>
   (s = unsetSettings \<and> trailingSettings p = unsetSettings \<longrightarrow>
      trailingSettings (snd (updateTrailingStop s p)) =
        \<lparr>initialStopDistancePercent = Some 2, activationThresholdPercent = Some 1,
         trailingDistancePercent = Some (3 / 2)\<rparr>)"
proof (intro conjI impI)
  show "trailingSettings (snd (updateTrailingStop s p)) =
     \<lparr>initialStopDistancePercent = Some (a_initialStopDistancePercent (resolveSettings s p)),
      activationThresholdPercent = Some (a_activationThresholdPercent (resolveSettings s p)),
      trailingDistancePercent = Some (a_trailingDistancePercent (resolveSettings s p))\<rparr>"
    by (simp add: updateTrailingStop_settings assignSettings_def)
  show "trailingSettings (snd (updateTrailingStop unsetSettings (snd (updateTrailingStop s p)))) =
     trailingSettings (snd (updateTrailingStop s p))"
    using resolveSettings_stored [of "snd (updateTrailingStop s p)" s p "trailingSettings p"]
    by (simp add: updateTrailingStop_settings)
next
  assume "s = unsetSettings \<and> trailingSettings p = unsetSettings"
  then show "trailingSettings (snd (updateTrailingStop s p)) =
        \<lparr>initialStopDistancePercent = Some 2, activationThresholdPercent = Some 1,
         trailingDistancePercent = Some (3 / 2)\<rparr>"
    by (simp add: updateTrailingStop_settings resolveSettings_unset assignSettings_def)
qed

lemma examplePosition_gate:
  "currentTrailingStop (snd (updateTrailingStop unsetSettings (examplePosition 100 100 98))) = 98"
  by (simp add: updateTrailingStop_def Let_def examplePosition_def newPosition_def
      resolveSettings_unset updateProfit_def)

theorem updateTrailingStop_overwrites_settings_witness:
  "currentTrailingStop (snd (updateTrailingStop unsetSettings (examplePosition 100 100 98))) =
     currentTrailingStop (examplePosition 100 100 98) \<and>
   trailingSettings (examplePosition 100 100 98) = unsetSettings \<and>
   trailingSettings (snd (updateTrailingStop unsetSettings (examplePosition 100 100 98))) =
     \<lparr>initialStopDistancePercent = Some 2, activationThresholdPercent = Some 1,
      trailingDistancePercent = Some (3 / 2)\<rparr>"
proof -
  have t: "trailingSettings (examplePosition 100 100 98) = unsetSettings"
    by (simp add: examplePosition_def newPosition_def)
  have c: "currentTrailingStop (examplePosition 100 100 98) = 98"
    by (simp add: examplePosition_def)
  have g: "currentTrailingStop (snd (updateTrailingStop unsetSettings (examplePosition 100 100 98))) =
     currentTrailingStop (examplePosition 100 100 98)"
    by (simp only: examplePosition_gate c)
  have "trailingSettings (snd (updateTrailingStop unsetSettings (examplePosition 100 100 98))) =
     \<lparr>initialStopDistancePercent = Some 2, activationThresholdPercent = Some 1,
      trailingDistancePercent = Some (3 / 2)\<rparr>"
    using updateTrailingStop_overwrites_settings [of unsetSettings "examplePosition 100 100 98"] t
    by blast
  with g t show ?thesis by blast
qed

lemma updateProfit_profitPercent:
  "currentPrice p \<noteq> 0 \<Longrightarrow>
   profitPercent (updateProfit p) = ((currentPrice p / entryPrice p) - 1) * 100"
  by (simp add: updateProfit_def)

lemma updateProfit_highest_commute:
  "updateProfit (p\<lparr>highestPrice := h\<rparr>) = (updateProfit p)\<lparr>highestPrice := h\<rparr>"
  by (simp add: updateProfit_def)

lemma updateTrailingStop_gate_closed:
  assumes "currentTrailingStop p \<noteq> 0"
      and "profitPercent (updateProfit p) < a_activationThresholdPercent (resolveSettings s p)"
  shows "updateTrailingStop s (p\<lparr>highestPrice := h\<rparr>) =
      (currentTrailingStop p,
       updateProfit (p\<lparr>highestPrice := h,
         trailingSettings := assignSettings (resolveSettings s p) (trailingSettings p)\<rparr>))"
proof -
  let ?q = "p\<lparr>highestPrice := h\<rparr>"
  have r: "resolveSettings s ?q = resolveSettings s p"
    by (rule resolveSettings_cong) simp
  have nz: "currentTrailingStop ?q \<noteq> 0" using assms(1) by simp
  have pp: "profitPercent (updateProfit (?q\<lparr>trailingSettings :=
              assignSettings (resolveSettings s p) (trailingSettings ?q)\<rparr>)) =
            profitPercent (updateProfit p)"
    by (simp add: updateProfit_def)
  show ?thesis
    using assms(2) pp by (simp add: updateTrailingStop_set [OF nz] r Let_def)
qed

text \<open>
  C4.  For a position whose \<^verbatim>\<open>currentTrailingStop\<close> is not zero: when the profit
  percentage that \<^verbatim>\<open>updateProfit\<close> leaves in the position is strictly below the effective
  activation threshold, \<^verbatim>\<open>updateTrailingStop\<close> returns the current stop and leaves it as
  it is, whatever the highest price \<open>h\<close> is.  That percentage is
  \<open>(currentPrice / entryPrice - 1) * 100\<close> whenever the current price is not zero (for an
  entry price other than zero, so that the quotient is a number); for a current price of
  zero \<^verbatim>\<open>updateProfit\<close> returns at once and the percentage is the stored one.
\<close>

theorem updateTrailingStop_activation_gate:
  "(currentTrailingStop p \<noteq> 0 \<and>
    profitPercent (updateProfit p) < a_activationThresholdPercent (resolveSettings s p) \<longrightarrow>
      fst (updateTrailingStop s (p\<lparr>highestPrice := h\<rparr>)) = currentTrailingStop p \<and>
      currentTrailingStop (snd (updateTrailingStop s (p\<lparr>highestPrice := h\<rparr>))) =
        currentTrailingStop p) \<and>
   (currentTrailingStop p \<noteq> 0 \<and> currentPrice p \<noteq> 0 \<and> entryPrice p \<noteq> 0 \<and>
    ((currentPrice p / entryPrice p) - 1) * 100
      < a_activationThresholdPercent (resolveSettings s p) \<longrightarrow>
      fst (updateTrailingStop s (p\<lparr>highestPrice := h\<rparr>)) = currentTrailingStop p \<and>
      currentTrailingStop (snd (updateTrailingStop s (p\<lparr>highestPrice := h\<rparr>))) =
        currentTrailingStop p)"
proof (intro conjI impI)
  assume a: "currentTrailingStop p \<noteq> 0 \<and>
    profitPercent (updateProfit p) < a_activationThresholdPercent (resolveSettings s p)"
  then have e: "updateTrailingStop s (p\<lparr>highestPrice := h\<rparr>) =
      (currentTrailingStop p,
       updateProfit (p\<lparr>highestPrice := h,
         trailingSettings := assignSettings (resolveSettings s p) (trailingSettings p)\<rparr>))"
    using updateTrailingStop_gate_closed [of p s h] by blast
  show "fst (updateTrailingStop s (p\<lparr>highestPrice := h\<rparr>)) = currentTrailingStop p"
    by (simp add: e)
  show "currentTrailingStop (snd (updateTrailingStop s (p\<lparr>highestPrice := h\<rparr>))) =
        currentTrailingStop p"
    by (simp add: e)
next
  assume a: "currentTrailingStop p \<noteq> 0 \<and> currentPrice p \<noteq> 0 \<and> entryPrice p \<noteq> 0 \<and>
    ((currentPrice p / entryPrice p) - 1) * 100
      < a_activationThresholdPercent (resolveSettings s p)"
  then have "profitPercent (updateProfit p) < a_activationThresholdPercent (resolveSettings s p)"
    by (simp add: updateProfit_profitPercent)
  then have e: "updateTrailingStop s (p\<lparr>highestPrice := h\<rparr>) =
      (currentTrailingStop p,
       updateProfit (p\<lparr>highestPrice := h,
         trailingSettings := assignSettings (resolveSettings s p) (trailingSettings p)\<rparr>))"
    using a updateTrailingStop_gate_closed [of p s h] by blast
  show "fst (updateTrailingStop s (p\<lparr>highestPrice := h\<rparr>)) = currentTrailingStop p"
    by (simp add: e)
  show "currentTrailingStop (snd (updateTrailingStop s (p\<lparr>highestPrice := h\<rparr>))) =
        currentTrailingStop p"
    by (simp add: e)
qed

theorem updateTrailingStop_activation_gate_witness:
  "fst (updateTrailingStop unsetSettings
     ((examplePosition (1005 / 10) 100 98)\<lparr>highestPrice := 500\<rparr>)) = 98"
proof -
  let ?p = "examplePosition (1005 / 10) 100 98"
  have g: "currentTrailingStop ?p \<noteq> 0 \<and> currentPrice ?p \<noteq> 0 \<and> entryPrice ?p \<noteq> 0 \<and>
    ((currentPrice ?p / entryPrice ?p) - 1) * 100
      < a_activationThresholdPercent (resolveSettings unsetSettings ?p)"
    by (simp add: resolveSettings_unset examplePosition_def newPosition_def)
  then have g': "currentTrailingStop ?p \<noteq> 0 \<and>
    profitPercent (updateProfit ?p) < a_activationThresholdPercent (resolveSettings unsetSettings ?p)"
    by (simp add: updateProfit_profitPercent)
  have c: "currentTrailingStop ?p = 98" by (simp add: examplePosition_def)
  from updateTrailingStop_activation_gate [of ?p unsetSettings 500] g g' c
  show ?thesis by simp
qed

lemma resolveSettings_precedence:
  "a_trailingDistancePercent (resolveSettings s p) =
     (case trailingDistancePercent s of
        Some v \<Rightarrow> if v \<noteq> 0 then v else
          (case trailingDistancePercent (trailingSettings p) of
             Some w \<Rightarrow> if w \<noteq> 0 then w else 3 / 2 | None \<Rightarrow> 3 / 2)
      | None \<Rightarrow>
          (case trailingDistancePercent (trailingSettings p) of
             Some w \<Rightarrow> if w \<noteq> 0 then w else 3 / 2 | None \<Rightarrow> 3 / 2))"
  "a_activationThresholdPercent (resolveSettings s p) =
     (case activationThresholdPercent s of
        Some v \<Rightarrow> if v \<noteq> 0 then v else
          (case activationThresholdPercent (trailingSettings p) of
             Some w \<Rightarrow> if w \<noteq> 0 then w else 1 | None \<Rightarrow> 1)
      | None \<Rightarrow>
          (case activationThresholdPercent (trailingSettings p) of
             Some w \<Rightarrow> if w \<noteq> 0 then w else 1 | None \<Rightarrow> 1))"
  "a_initialStopDistancePercent (resolveSettings s p) =
     (case initialStopDistancePercent s of
        Some v \<Rightarrow> if v \<noteq> 0 then v else
          (case initialStopDistancePercent (trailingSettings p) of
             Some w \<Rightarrow> if w \<noteq> 0 then w else 2 | None \<Rightarrow> 2)
      | None \<Rightarrow>
          (case initialStopDistancePercent (trailingSettings p) of
             Some w \<Rightarrow> if w \<noteq> 0 then w else 2 | None \<Rightarrow> 2))"
  by (simp_all add: resolveSettings_def js_or_def js_or_num_def js_truthy_def split: option.splits)

text \<open>
  C5.  The precedence call-site value, stored value, default holds for values other than
  zero only: \<^verbatim>\<open>||\<close> takes a zero for a missing value.  With the call-site settings
  \<open>(0, 0, 0)\<close> the effective settings are the stored ones \<open>(5, 4, 3)\<close>, or the defaults
  \<open>(2, 1, 1.5)\<close> when nothing is stored; in the second case the call on a position with
  highest price 103 trails the stop at a distance of 1.5 percent, to 101.455, not at a
  distance of 0 percent, to 103.
\<close>

theorem resolveSettings_zero_call_site:
  "resolveSettings zeroSettings ((examplePosition 103 103 98)\<lparr>trailingSettings := storedSettings\<rparr>) =
     \<lparr>a_initialStopDistancePercent = 5, a_activationThresholdPercent = 4,
      a_trailingDistancePercent = 3\<rparr> \<and>
   resolveSettings zeroSettings (examplePosition 103 103 98) =
     \<lparr>a_initialStopDistancePercent = 2, a_activationThresholdPercent = 1,
      a_trailingDistancePercent = 3 / 2\<rparr> \<and>
   fst (updateTrailingStop zeroSettings (examplePosition 103 103 98)) = 103 - 103 * ((3 / 2) / 100) \<and>
   fst (updateTrailingStop zeroSettings (examplePosition 103 103 98)) \<noteq> 103 - 103 * (0 / 100)"
  by (simp add: resolveSettings_def zeroSettings_def storedSettings_def examplePosition_def
      newPosition_def unsetSettings_def js_or_def js_or_num_def js_truthy_def
      updateTrailingStop_def updateProfit_def Let_def)




section \<open>Ratchet invariants of a position\<close>

lemmas example_defs =
  examplePosition_def newPosition_def unsetSettings_def exampleKline_def exampleEvents_def
  resolveSettings_def js_or_def js_or_num_def js_truthy_def assignSettings_def
  updateTrailingStop_def updateProfit_def setInitialStop_def candleTurn_def refreshPrice_def
  stopTriggered_def raiseHighest_def close_def positiveSettings_def Let_def

lemma close_fields:
  "highestPrice (snd (close now c r p)) = highestPrice p"
  "currentTrailingStop (snd (close now c r p)) = currentTrailingStop p"
  "trailingSettings (snd (close now c r p)) = trailingSettings p"
  "entryPrice (snd (close now c r p)) = entryPrice p"
  by (simp_all add: close_def Let_def)

lemma candleTurn_fields:
  "currentTrailingStop (candleTurn now k p) = currentTrailingStop p"
  "trailingSettings (candleTurn now k p) = trailingSettings p"
  "highestPrice p \<le> highestPrice (candleTurn now k p)"
  by (simp_all add: candleTurn_def Let_def close_fields raiseHighest_def)

lemma refreshPrice_fields:
  "currentTrailingStop (refreshPrice c p) = currentTrailingStop p"
  "trailingSettings (refreshPrice c p) = trailingSettings p"
  "highestPrice p \<le> highestPrice (refreshPrice c p)"
  by (simp_all add: refreshPrice_def Let_def)

lemma updateTrailingStop_highest:
  "highestPrice (snd (updateTrailingStop s p)) = highestPrice p"
  by (simp add: updateTrailingStop_def setInitialStop_def Let_def)

lemma updateTrailingStop_status:
  "status (snd (updateTrailingStop s p)) = status p"
  by (simp add: updateTrailingStop_def setInitialStop_def Let_def)

lemma updateTrailingStop_stop_cases:
  assumes "currentTrailingStop p \<noteq> 0"
  shows "currentTrailingStop (snd (updateTrailingStop s p)) = currentTrailingStop p \<or>
         (currentTrailingStop p < currentTrailingStop (snd (updateTrailingStop s p)) \<and>
          currentTrailingStop (snd (updateTrailingStop s p)) =
            highestPrice p - highestPrice p * (a_trailingDistancePercent (resolveSettings s p) / 100))"
  by (simp add: updateTrailingStop_set [OF assms] Let_def)

lemma updateTrailingStop_mono:
  "currentTrailingStop p \<noteq> 0 \<Longrightarrow>
   currentTrailingStop p \<le> currentTrailingStop (snd (updateTrailingStop s p))"
  using updateTrailingStop_stop_cases [of p s] by auto

lemma step_highest: "highestPrice p \<le> highestPrice (step e p)"
  by (cases e) (simp_all add: candleTurn_fields refreshPrice_fields updateTrailingStop_highest
      setInitialStop_def Let_def)

lemma step_stop:
  "\<not> callsSetInitialStop e p \<Longrightarrow> currentTrailingStop p \<le> currentTrailingStop (step e p)"
  by (cases e) (auto simp: candleTurn_fields refreshPrice_fields updateTrailingStop_mono)

lemma run_highest: "highestPrice p \<le> highestPrice (run es p)"
proof (induction es arbitrary: p)
  case Nil
  then show ?case by simp
next
  case (Cons e es)
  have "highestPrice p \<le> highestPrice (step e p)" by (rule step_highest)
  also have "\<dots> \<le> highestPrice (run es (step e p))" by (rule Cons.IH)
  finally show ?case by simp
qed

lemma run_stop:
  "setInitialStop_calls es p = 0 \<Longrightarrow> currentTrailingStop p \<le> currentTrailingStop (run es p)"
proof (induction es arbitrary: p)
  case Nil
  then show ?case by simp
next
  case (Cons e es)
  from Cons.prems have a: "\<not> callsSetInitialStop e p" and b: "setInitialStop_calls es (step e p) = 0"
    by (auto split: if_splits)
  have "currentTrailingStop p \<le> currentTrailingStop (step e p)" using a by (rule step_stop)
  also have "\<dots> \<le> currentTrailingStop (run es (step e p))" using b by (rule Cons.IH)
  finally show ?case by simp
qed

lemma js_or_num_positive:
  "(case a of None \<Rightarrow> True | Some v \<Rightarrow> 0 < v) \<Longrightarrow> (case b of None \<Rightarrow> True | Some v \<Rightarrow> 0 < v) \<Longrightarrow>
   0 < d \<Longrightarrow> 0 < js_or_num (js_or a b) d"
  by (auto simp: js_or_num_def js_or_def js_truthy_def split: option.splits)

lemma resolveSettings_positive:
  assumes "positiveSettings s" "positiveSettings (trailingSettings p)"
  shows "0 < a_initialStopDistancePercent (resolveSettings s p)"
        "0 < a_activationThresholdPercent (resolveSettings s p)"
        "0 < a_trailingDistancePercent (resolveSettings s p)"
  using assms by (simp_all add: resolveSettings_def positiveSettings_def js_or_num_positive)

lemma updateTrailingStop_positiveSettings:
  assumes "positiveSettings s" "positiveSettings (trailingSettings p)"
  shows "positiveSettings (trailingSettings (snd (updateTrailingStop s p)))"
  using resolveSettings_positive [OF assms]
  by (simp add: updateTrailingStop_settings assignSettings_def positiveSettings_def)

lemma candidate_le_highest:
  assumes "0 \<le> highestPrice p" "positiveSettings s" "positiveSettings (trailingSettings p)"
  shows "highestPrice p - highestPrice p * (a_trailingDistancePercent (resolveSettings s p) / 100)
           \<le> highestPrice p"
proof -
  have "0 \<le> highestPrice p * (a_trailingDistancePercent (resolveSettings s p) / 100)"
    using assms(1) resolveSettings_positive(3) [OF assms(2,3)] by simp
  then show ?thesis by simp
qed

lemma updateTrailingStop_activated:
  assumes "0 \<le> highestPrice p" "positiveSettings s" "positiveSettings (trailingSettings p)"
      and "currentTrailingStop p \<noteq> 0"
      and "currentTrailingStop (snd (updateTrailingStop s p)) \<noteq> currentTrailingStop p"
  shows "stopBelowHighest (snd (updateTrailingStop s p))"
  using updateTrailingStop_stop_cases [OF assms(4), of s] assms(5)
        candidate_le_highest [OF assms(1,2,3)] updateTrailingStop_positiveSettings [OF assms(2,3)]
        assms(1)
  by (simp add: stopBelowHighest_def updateTrailingStop_highest)

lemma step_stopBelowHighest:
  assumes "stopBelowHighest p" "positiveEvent e" "\<not> callsSetInitialStop e p"
  shows "stopBelowHighest (step e p)"
proof (cases e)
  case (Candle now k)
  then show ?thesis using assms(1) candleTurn_fields(3) [of p now k]
    by (simp add: stopBelowHighest_def candleTurn_fields(1,2))
next
  case (Refresh c)
  then show ?thesis using assms(1) refreshPrice_fields(3) [of p c]
    by (simp add: stopBelowHighest_def refreshPrice_fields(1,2))
next
  case (UpdateStop s)
  show ?thesis
  proof (cases "status p = ACTIVE")
    case True
    then have nz: "currentTrailingStop p \<noteq> 0" using assms(3) UpdateStop by simp
    have ps: "positiveSettings s" using assms(2) UpdateStop by simp
    have pt: "positiveSettings (trailingSettings p)" and h: "0 \<le> highestPrice p"
      and le: "currentTrailingStop p \<le> highestPrice p"
      using assms(1) by (simp_all add: stopBelowHighest_def)
    show ?thesis
      using updateTrailingStop_stop_cases [OF nz, of s] candidate_le_highest [OF h ps pt]
            updateTrailingStop_positiveSettings [OF ps pt] h le True UpdateStop
      by (auto simp: stopBelowHighest_def updateTrailingStop_highest)
  next
    case False
    then show ?thesis using assms(1) UpdateStop by simp
  qed
next
  case (InitialStop v)
  then show ?thesis using assms(3) by simp
qed

lemma run_stopBelowHighest:
  "stopBelowHighest p \<Longrightarrow> list_all positiveEvent es \<Longrightarrow> setInitialStop_calls es p = 0 \<Longrightarrow>
   stopBelowHighest (run es p)"
proof (induction es arbitrary: p)
  case Nil
  then show ?case by simp
next
  case (Cons e es)
  from Cons.prems(3) have a: "\<not> callsSetInitialStop e p" and b: "setInitialStop_calls es (step e p) = 0"
    by (auto split: if_splits)
  from Cons.prems(2) have c: "positiveEvent e" and d: "list_all positiveEvent es" by simp_all
  have "stopBelowHighest (step e p)" using Cons.prems(1) c a by (rule step_stopBelowHighest)
  then show ?case using Cons.IH [OF _ d b] by simp
qed

lemma step_stop_positive:
  assumes "0 < currentTrailingStop p" "\<forall>v. e \<noteq> InitialStop v"
  shows "0 < currentTrailingStop (step e p) \<and> \<not> callsSetInitialStop e p"
proof (cases e)
  case (UpdateStop s)
  have "currentTrailingStop p \<le> currentTrailingStop (snd (updateTrailingStop s p))"
    using assms(1) by (intro updateTrailingStop_mono) simp
  then show ?thesis using assms(1) UpdateStop by auto
qed (use assms in \<open>simp_all add: candleTurn_fields refreshPrice_fields\<close>)

lemma run_stop_positive:
  "0 < currentTrailingStop p \<Longrightarrow> \<forall>e\<in>set es. \<forall>v. e \<noteq> InitialStop v \<Longrightarrow>
   setInitialStop_calls es p = 0"
proof (induction es arbitrary: p)
  case Nil
  then show ?case by simp
next
  case (Cons e es)
  have e: "\<forall>v. e \<noteq> InitialStop v" using Cons.prems(2) by simp
  have "0 < currentTrailingStop (step e p) \<and> \<not> callsSetInitialStop e p"
    using Cons.prems(1) e by (rule step_stop_positive)
  then show ?case using Cons.IH [of "step e p"] Cons.prems(2) by simp
qed

text \<open>
  C1.  For every position and every sequence of events on it (candles of the backtest,
  price refreshes, calls of \<^verbatim>\<open>updateTrailingStop\<close>; events other than a call of
  \<^verbatim>\<open>setInitialStop\<close> act on an active position only):
  the highest price never decreases; when \<^verbatim>\<open>setInitialStop\<close> is not invoked during the
  run, neither from outside nor by \<^verbatim>\<open>updateTrailingStop\<close> finding the stop at zero, the
  stop never decreases, and a run that starts with a positive stop and has no outside
  call is such a run; and once a call of \<^verbatim>\<open>updateTrailingStop\<close> with positive percentage
  settings has raised a non-zero stop of an active position with a non-negative highest
  price (trailing has activated), the stop stays at or below the highest price through
  every further run with positive settings and without a call of \<^verbatim>\<open>setInitialStop\<close>.
\<close>

theorem ratchet_invariants:
  "highestPrice p \<le> highestPrice (run es p) \<and>
   (setInitialStop_calls es p = 0 \<longrightarrow>
      currentTrailingStop p \<le> currentTrailingStop (run es p)) \<and>
   (0 < currentTrailingStop p \<and> (\<forall>e\<in>set es. \<forall>v. e \<noteq> InitialStop v) \<longrightarrow>
      setInitialStop_calls es p = 0) \<and>
   (status p = ACTIVE \<and> 0 \<le> highestPrice p \<and>
    positiveSettings s \<and> positiveSettings (trailingSettings p) \<and>
    currentTrailingStop p \<noteq> 0 \<and>
    currentTrailingStop (step (UpdateStop s) p) \<noteq> currentTrailingStop p \<and>
    list_all positiveEvent es \<and> setInitialStop_calls es (step (UpdateStop s) p) = 0 \<longrightarrow>
      currentTrailingStop (run es (step (UpdateStop s) p))
        \<le> highestPrice (run es (step (UpdateStop s) p)))"
proof (intro conjI impI)
  show "highestPrice p \<le> highestPrice (run es p)" by (rule run_highest)
next
  assume "setInitialStop_calls es p = 0"
  then show "currentTrailingStop p \<le> currentTrailingStop (run es p)" by (rule run_stop)
next
  assume "0 < currentTrailingStop p \<and> (\<forall>e\<in>set es. \<forall>v. e \<noteq> InitialStop v)"
  then show "setInitialStop_calls es p = 0" using run_stop_positive [of p es] by blast
next
  assume a: "status p = ACTIVE \<and> 0 \<le> highestPrice p \<and>
    positiveSettings s \<and> positiveSettings (trailingSettings p) \<and>
    currentTrailingStop p \<noteq> 0 \<and>
    currentTrailingStop (step (UpdateStop s) p) \<noteq> currentTrailingStop p \<and>
    list_all positiveEvent es \<and> setInitialStop_calls es (step (UpdateStop s) p) = 0"
  then have act: "status p = ACTIVE" and h: "0 \<le> highestPrice p"
    and ps: "positiveSettings s" and pt: "positiveSettings (trailingSettings p)"
    and nz: "currentTrailingStop p \<noteq> 0"
    and ch: "currentTrailingStop (step (UpdateStop s) p) \<noteq> currentTrailingStop p"
    and pe: "list_all positiveEvent es"
    and nc: "setInitialStop_calls es (step (UpdateStop s) p) = 0"
    by blast+
  have q: "step (UpdateStop s) p = snd (updateTrailingStop s p)" using act by simp
  have ch': "currentTrailingStop (snd (updateTrailingStop s p)) \<noteq> currentTrailingStop p"
    using ch unfolding q .
  have "stopBelowHighest (step (UpdateStop s) p)"
    unfolding q using h ps pt nz ch' by (rule updateTrailingStop_activated)
  then have "stopBelowHighest (run es (step (UpdateStop s) p))"
    using pe nc by (rule run_stopBelowHighest)
  then show "currentTrailingStop (run es (step (UpdateStop s) p))
        \<le> highestPrice (run es (step (UpdateStop s) p))"
    by (simp add: stopBelowHighest_def)
qed

lemma exampleEvents_run:
  "currentTrailingStop (step (UpdateStop unsetSettings) (examplePosition 103 103 98)) = 20291 / 200"
  "setInitialStop_calls exampleEvents
     (step (UpdateStop unsetSettings) (examplePosition 103 103 98)) = 0"
  "currentTrailingStop (run exampleEvents
     (step (UpdateStop unsetSettings) (examplePosition 103 103 98))) = 2561 / 25"
  "highestPrice (run exampleEvents
     (step (UpdateStop unsetSettings) (examplePosition 103 103 98))) = 104"
  by (simp_all add: example_defs)

theorem ratchet_invariants_witness:
  "setInitialStop_calls exampleEvents
     (step (UpdateStop unsetSettings) (examplePosition 103 103 98)) = 0 \<and>
   currentTrailingStop (step (UpdateStop unsetSettings) (examplePosition 103 103 98))
     \<le> currentTrailingStop (run exampleEvents
          (step (UpdateStop unsetSettings) (examplePosition 103 103 98))) \<and>
   currentTrailingStop (run exampleEvents
     (step (UpdateStop unsetSettings) (examplePosition 103 103 98)))
     \<le> highestPrice (run exampleEvents
          (step (UpdateStop unsetSettings) (examplePosition 103 103 98)))"
proof -
  let ?p = "examplePosition 103 103 98"
  let ?q = "step (UpdateStop unsetSettings) ?p"
  have h: "status ?p = ACTIVE \<and> 0 \<le> highestPrice ?p \<and>
    positiveSettings unsetSettings \<and> positiveSettings (trailingSettings ?p) \<and>
    currentTrailingStop ?p \<noteq> 0 \<and> currentTrailingStop ?q \<noteq> currentTrailingStop ?p \<and>
    list_all positiveEvent exampleEvents \<and> setInitialStop_calls exampleEvents ?q = 0"
    unfolding exampleEvents_run(1,2)
    by (simp add: examplePosition_def newPosition_def positiveSettings_def unsetSettings_def
        exampleEvents_def)
  from ratchet_invariants [of ?q exampleEvents] h
  have a: "currentTrailingStop ?q \<le> currentTrailingStop (run exampleEvents ?q)" by blast
  from ratchet_invariants [of ?p exampleEvents unsetSettings] h
  have b: "currentTrailingStop (run exampleEvents ?q) \<le> highestPrice (run exampleEvents ?q)"
    by blast
  from h a b show ?thesis by blast
qed

section \<open>The per-candle step of the backtest\<close>

lemma updateTrailingStop_order:
  "updateTrailingStop s (p\<lparr>stopOrderId := x\<rparr>) =
     (fst (updateTrailingStop s p), (snd (updateTrailingStop s p))\<lparr>stopOrderId := x\<rparr>)"
  by (simp add: updateTrailingStop_def setInitialStop_def updateProfit_def resolveSettings_def
      Let_def)

lemma spec_batchedUpdate_inactive [simp]:
  "status p \<noteq> ACTIVE \<Longrightarrow> spec_batchedUpdate cfg p = p"
  by (simp add: spec_batchedUpdate_def)

lemma spec_batchedUpdate_status [simp]: "status (spec_batchedUpdate cfg p) = status p"
  by (simp add: spec_batchedUpdate_def updateTrailingStop_status)

lemma passed_refl: "passed p p"
  by (simp add: passed_def)

lemma passed_trans: "passed p q \<Longrightarrow> passed q r \<Longrightarrow> passed p r"
  by (auto simp: passed_def)

lemma passed_update: "passed p (spec_batchedUpdate cfg p)"
  using updateTrailingStop_mono [of p cfg]
  by (auto simp: passed_def spec_batchedUpdate_def updateTrailingStop_status
      updateTrailingStop_highest)

lemma passed_order: "status p = ACTIVE \<Longrightarrow> passed p (p\<lparr>stopOrderId := x\<rparr>)"
  by (simp add: passed_def)

lemma passed_noOrder:
  assumes "status p = ACTIVE" "noOrder q = noOrder (spec_batchedUpdate cfg p)"
  shows "passed p q"
proof -
  have "status (noOrder q) = status (noOrder (spec_batchedUpdate cfg p))"
       "highestPrice (noOrder q) = highestPrice (noOrder (spec_batchedUpdate cfg p))"
       "currentTrailingStop (noOrder q) = currentTrailingStop (noOrder (spec_batchedUpdate cfg p))"
    using assms(2) by simp_all
  then have "status q = status (spec_batchedUpdate cfg p)"
       "highestPrice q = highestPrice (spec_batchedUpdate cfg p)"
       "currentTrailingStop q = currentTrailingStop (spec_batchedUpdate cfg p)"
    by (simp_all add: noOrder_def)
  then show ?thesis using passed_update [of p cfg] assms(1) by (simp add: passed_def)
qed

lemma updateStopOrder_Inr:
  assumes "updateStopOrder gw i v st = Inr st'"
  shows "\<exists>oid. st' = st\<lparr>positions := (positions st)[i := (positions st ! i)\<lparr>stopOrderId := Some oid\<rparr>],
                        orderCount := Suc (orderCount st)\<rparr>"
  using assms by (auto simp: updateStopOrder_def split: option.splits)

lemma updateStopOrder_total:
  "gw (orderCount st) \<noteq> None \<Longrightarrow> \<exists>st'. updateStopOrder gw i v st = Inr st'"
  by (auto simp: updateStopOrder_def split: option.splits)

lemma updateTrailingStopAt_inactive:
  "status (positions st ! i) \<noteq> ACTIVE \<Longrightarrow> updateTrailingStopAt gw i st = Inr st"
  by (simp add: updateTrailingStopAt_def)

lemma updateTrailingStopAt_Inr:
  assumes "updateTrailingStopAt gw i st = Inr st'" and "i < length (positions st)"
  shows "\<exists>q c. st' = st\<lparr>positions := (positions st)[i := q], orderCount := c\<rparr> \<and>
           noOrder q = noOrder (spec_batchedUpdate (trailingStop st) (positions st ! i))"
proof (cases "status (positions st ! i) = ACTIVE")
  case False
  then have "st' = st" using assms(1) by (simp add: updateTrailingStopAt_inactive)
  then have "st' = st\<lparr>positions := (positions st)[i := positions st ! i],
                      orderCount := orderCount st\<rparr>"
    by simp
  then show ?thesis using False by (metis spec_batchedUpdate_inactive)
next
  case True
  define r where "r = updateTrailingStop (trailingStop st) (positions st ! i)"
  define st1 where "st1 = st\<lparr>positions := (positions st)[i := snd r]\<rparr>"
  have u: "spec_batchedUpdate (trailingStop st) (positions st ! i) = snd r"
    using True by (simp add: spec_batchedUpdate_def r_def)
  have n: "positions st1 ! i = snd r" using assms(2) by (simp add: st1_def)
  show ?thesis
  proof (cases "fst r \<noteq> currentTrailingStop (positions st ! i) \<and> idTruthy (stopOrderId (snd r))")
    case False
    then have "st' = st1"
      using assms(1) True n unfolding updateTrailingStopAt_def Let_def r_def [symmetric] st1_def [symmetric]
      by auto
    then have "st' = st\<lparr>positions := (positions st)[i := snd r], orderCount := orderCount st\<rparr>"
      by (simp add: st1_def)
    then show ?thesis using u by metis
  next
    case c: True
    then have "updateStopOrder gw i (fst r) st1 = Inr st'"
      using assms(1) True n unfolding updateTrailingStopAt_def Let_def r_def [symmetric] st1_def [symmetric]
      by auto
    then obtain oid where
      "st' = st1\<lparr>positions := (positions st1)[i := (positions st1 ! i)\<lparr>stopOrderId := Some oid\<rparr>],
                  orderCount := Suc (orderCount st1)\<rparr>"
      using updateStopOrder_Inr by blast
    then have "st' = st\<lparr>positions := (positions st)[i := (snd r)\<lparr>stopOrderId := Some oid\<rparr>],
                  orderCount := Suc (orderCount st)\<rparr>"
      using n by (simp add: st1_def)
    moreover have "noOrder ((snd r)\<lparr>stopOrderId := Some oid\<rparr>) = noOrder (snd r)"
      by (simp add: noOrder_def)
    ultimately show ?thesis using u by metis
  qed
qed

lemma updateTrailingStopAt_total:
  "\<forall>n. gw n \<noteq> None \<Longrightarrow> \<exists>st'. updateTrailingStopAt gw i st = Inr st'"
  by (simp add: updateTrailingStopAt_def Let_def updateStopOrder_total)

lemma passedState_refl: "passedState st st"
  by (simp add: passedState_def passed_refl)

lemma passedState_trans:
  assumes ab: "passedState a b" and bc: "passedState b c"
  shows "passedState a c"
proof -
  have "\<forall>j<length (positions a). passed (positions a ! j) (positions c ! j)"
  proof (intro allI impI)
    fix j assume j: "j < length (positions a)"
    have "passed (positions a ! j) (positions b ! j)" using ab j by (simp add: passedState_def)
    moreover have "passed (positions b ! j) (positions c ! j)"
      using ab bc j by (simp add: passedState_def)
    ultimately show "passed (positions a ! j) (positions c ! j)" by (rule passed_trans)
  qed
  then show ?thesis using ab bc by (simp add: passedState_def)
qed

lemma updateTrailingStopAt_passedState:
  assumes "updateTrailingStopAt gw i st = Inr st'" and "i < length (positions st)"
  shows "passedState st st'"
proof (cases "status (positions st ! i) = ACTIVE")
  case False
  then have "st' = st" using assms(1) by (simp add: updateTrailingStopAt_inactive)
  then show ?thesis by (simp add: passedState_refl)
next
  case True
  obtain q c where st': "st' = st\<lparr>positions := (positions st)[i := q], orderCount := c\<rparr>"
    and q: "noOrder q = noOrder (spec_batchedUpdate (trailingStop st) (positions st ! i))"
    using updateTrailingStopAt_Inr [OF assms] by blast
  have pq: "passed (positions st ! i) q" using True q by (rule passed_noOrder)
  have "\<forall>j<length (positions st). passed (positions st ! j) (positions st' ! j)"
  proof (intro allI impI)
    fix j assume "j < length (positions st)"
    then show "passed (positions st ! j) (positions st' ! j)"
      using pq assms(2) by (cases "j = i") (simp_all add: st' passed_refl)
  qed
  then show ?thesis by (simp add: passedState_def st')
qed

lemma updateTrailingStopsLoop_passedState:
  "updateTrailingStopsLoop gw js st = Inr st' \<Longrightarrow> \<forall>j\<in>set js. j < length (positions st) \<Longrightarrow>
   passedState st st'"
proof (induction js arbitrary: st)
  case Nil
  then show ?case by (simp add: passedState_refl)
next
  case (Cons i js)
  from Cons.prems(1) obtain st1 where a: "updateTrailingStopAt gw i st = Inr st1"
    and b: "updateTrailingStopsLoop gw js st1 = Inr st'"
    by (auto split: sum.splits)
  have i: "i < length (positions st)" using Cons.prems(2) by simp
  have p1: "passedState st st1" using a i by (rule updateTrailingStopAt_passedState)
  then have "length (positions st1) = length (positions st)" by (simp add: passedState_def)
  then have "\<forall>j\<in>set js. j < length (positions st1)" using Cons.prems(2) by simp
  then have "passedState st1 st'" using Cons.IH [OF b] by blast
  with p1 show ?case by (rule passedState_trans)
qed

lemma updateTrailingStops_passedState:
  "updateTrailingStops gw st = Inr st' \<Longrightarrow> passedState st st'"
  unfolding updateTrailingStops_def
  using updateTrailingStopsLoop_passedState [of gw "[0..<length (positions st)]" st st'] by simp

lemma updateTrailingStopsLoop_total:
  "\<forall>n. gw n \<noteq> None \<Longrightarrow> \<exists>st'. updateTrailingStopsLoop gw js st = Inr st'"
proof (induction js arbitrary: st)
  case Nil
  then show ?case by simp
next
  case (Cons i js)
  obtain st1 where "updateTrailingStopAt gw i st = Inr st1"
    using updateTrailingStopAt_total [OF Cons.prems] by blast
  then show ?case using Cons.IH [OF Cons.prems, of st1] by simp
qed

lemma updateTrailingStops_total:
  "\<forall>n. gw n \<noteq> None \<Longrightarrow> \<exists>st'. updateTrailingStops gw st = Inr st'"
  unfolding updateTrailingStops_def by (rule updateTrailingStopsLoop_total)

lemma includesStr_stopLoss: "includesStr ''StopLoss (Backtest)'' ''StopLoss''"
  by simp

lemma closePosition_stopLoss:
  "closePosition gw now i c ''StopLoss (Backtest)'' st =
     Inr (makeTrade (snd (close now c ''StopLoss (Backtest)'' (positions st ! i))) c
            ''StopLoss (Backtest)'',
          st\<lparr>positions :=
               (positions st)[i := snd (close now c ''StopLoss (Backtest)'' (positions st ! i))],
             profitHistory := profitHistory st @
               [makeTrade (snd (close now c ''StopLoss (Backtest)'' (positions st ! i))) c
                  ''StopLoss (Backtest)''],
             resultsTrades := resultsTrades st @
               [makeTrade (snd (close now c ''StopLoss (Backtest)'' (positions st ! i))) c
                  ''StopLoss (Backtest)'']\<rparr>)"
  unfolding closePosition_def Let_def using includesStr_stopLoss by simp

lemma stopTriggered_updateProfit:
  "stopTriggered k (updateProfit (p\<lparr>currentPrice := c\<rparr>)) = stopTriggered k p"
  by (simp add: stopTriggered_def)

lemma processPosition_triggered:
  assumes "i < length (positions st)" "stopTriggered k (positions st ! i)"
  shows "processPosition gw now k i st =
     Inr (st\<lparr>positions := (positions st)[i := candleTurn now k (positions st ! i)],
             profitHistory := profitHistory st @ [stopLossTrade now k (positions st ! i)],
             resultsTrades := resultsTrades st @ [stopLossTrade now k (positions st ! i)]\<rparr>)"
proof -
  define p1 where "p1 = updateProfit ((positions st ! i)\<lparr>currentPrice := k_close k\<rparr>)"
  have t: "stopTriggered k p1" using assms(2) by (simp add: p1_def stopTriggered_updateProfit)
  then have t': "currentTrailingStop p1 > 0 \<and> low k \<le> currentTrailingStop p1"
    by (simp add: stopTriggered_def)
  have c: "candleTurn now k (positions st ! i) =
      snd (close now (currentTrailingStop p1) ''StopLoss (Backtest)'' p1)"
    using t by (simp add: candleTurn_def Let_def p1_def)
  have s: "currentTrailingStop p1 = currentTrailingStop (positions st ! i)"
    by (simp add: p1_def)
  show ?thesis
    unfolding processPosition_def Let_def p1_def [symmetric]
    using t' assms(1) by (simp add: closePosition_stopLoss stopLossTrade_def c s)
qed

lemma processPosition_untriggered:
  assumes "i < length (positions st)" "\<not> stopTriggered k (positions st ! i)"
      and "status (positions st ! i) = ACTIVE"
  shows "processPosition gw now k i st =
     updateTrailingStops gw
       (st\<lparr>positions := (positions st)[i := candleTurn now k (positions st ! i)]\<rparr>)"
proof -
  define p1 where "p1 = updateProfit ((positions st ! i)\<lparr>currentPrice := k_close k\<rparr>)"
  have t: "\<not> stopTriggered k p1" using assms(2) by (simp add: p1_def stopTriggered_updateProfit)
  then have t': "(currentTrailingStop p1 > 0 \<and> low k \<le> currentTrailingStop p1) = False"
    by (simp add: stopTriggered_def)
  have c: "candleTurn now k (positions st ! i) =
      (if high k > highestPrice p1 then p1\<lparr>highestPrice := high k\<rparr> else p1)"
    using t by (simp add: candleTurn_def Let_def p1_def raiseHighest_def)
  have a: "status p1 = ACTIVE" using assms(3) by (simp add: p1_def)
  show ?thesis
    unfolding processPosition_def Let_def p1_def [symmetric]
    using assms(1) a by (simp add: c t')
qed

lemma processPosition_inactive:
  assumes "i < length (positions st)" "\<not> stopTriggered k (positions st ! i)"
      and "status (positions st ! i) \<noteq> ACTIVE"
  shows "processPosition gw now k i st =
     Inr (st\<lparr>positions := (positions st)[i := candleTurn now k (positions st ! i)]\<rparr>)"
proof -
  define p1 where "p1 = updateProfit ((positions st ! i)\<lparr>currentPrice := k_close k\<rparr>)"
  have t: "\<not> stopTriggered k p1" using assms(2) by (simp add: p1_def stopTriggered_updateProfit)
  then have t': "(currentTrailingStop p1 > 0 \<and> low k \<le> currentTrailingStop p1) = False"
    by (simp add: stopTriggered_def)
  have c: "candleTurn now k (positions st ! i) =
      (if high k > highestPrice p1 then p1\<lparr>highestPrice := high k\<rparr> else p1)"
    using t by (simp add: candleTurn_def Let_def p1_def raiseHighest_def)
  have a: "status p1 \<noteq> ACTIVE" using assms(3) by (simp add: p1_def)
  show ?thesis
    unfolding processPosition_def Let_def p1_def [symmetric]
    using assms(1) a by (simp add: c t')
qed

lemma turned_trans:
  assumes ab: "turned J a b" and bc: "turned K b c"
  shows "turned (J \<union> K) a c"
proof -
  have "\<forall>j<length (positions a). j \<notin> J \<union> K \<longrightarrow> passed (positions a ! j) (positions c ! j)"
  proof (intro allI impI)
    fix j assume j: "j < length (positions a)" and n: "j \<notin> J \<union> K"
    have "passed (positions a ! j) (positions b ! j)" using ab j n by (simp add: turned_def)
    moreover have "passed (positions b ! j) (positions c ! j)"
      using ab bc j n by (simp add: turned_def)
    ultimately show "passed (positions a ! j) (positions c ! j)" by (rule passed_trans)
  qed
  moreover have "set (profitHistory a) \<subseteq> set (profitHistory c)"
    "set (resultsTrades a) \<subseteq> set (resultsTrades c)"
    using ab bc by (auto simp: turned_def)
  ultimately show ?thesis using ab bc by (simp add: turned_def)
qed

lemma turned_refl: "turned J st st"
  by (simp add: turned_def passed_refl)

lemma passedState_turned: "passedState a b \<Longrightarrow> turned J a b"
  by (simp add: passedState_def turned_def)

lemma turned_update:
  "i < length (positions st) \<Longrightarrow> turned {i} st (st\<lparr>positions := (positions st)[i := q]\<rparr>)"
  by (simp add: turned_def passed_refl)

lemma processPosition_turned:
  assumes "processPosition gw now k i st = Inr st'" and "i < length (positions st)"
  shows "turned {i} st st'"
proof (cases "stopTriggered k (positions st ! i)")
  case True
  then show ?thesis
    using assms by (auto simp: processPosition_triggered turned_def passed_refl)
next
  case False
  let ?st2 = "st\<lparr>positions := (positions st)[i := candleTurn now k (positions st ! i)]\<rparr>"
  have t2: "turned {i} st ?st2" using assms(2) by (rule turned_update)
  show ?thesis
  proof (cases "status (positions st ! i) = ACTIVE")
    case True
    then have "updateTrailingStops gw ?st2 = Inr st'"
      using assms False by (simp add: processPosition_untriggered)
    then have "turned {i} ?st2 st'"
      by (intro passedState_turned updateTrailingStops_passedState)
    with t2 show ?thesis using turned_trans by fastforce
  next
    case n: False
    then have "st' = ?st2" using assms False by (simp add: processPosition_inactive)
    with t2 show ?thesis by simp
  qed
qed

lemma processPositions_turned:
  "processPositions gw now k js st = Inr st' \<Longrightarrow> \<forall>j\<in>set js. j < length (positions st) \<Longrightarrow>
   turned (set js) st st'"
proof (induction js arbitrary: st)
  case Nil
  then show ?case by (simp add: turned_refl)
next
  case (Cons i js)
  from Cons.prems(1) obtain st1 where a: "processPosition gw now k i st = Inr st1"
    and b: "processPositions gw now k js st1 = Inr st'"
    by (auto split: sum.splits)
  have i: "i < length (positions st)" using Cons.prems(2) by simp
  have t1: "turned {i} st st1" using a i by (rule processPosition_turned)
  then have "length (positions st1) = length (positions st)" by (simp add: turned_def)
  then have "\<forall>j\<in>set js. j < length (positions st1)" using Cons.prems(2) by simp
  then have "turned (set js) st1 st'" using Cons.IH [OF b] by blast
  with t1 have "turned ({i} \<union> set js) st st'" by (rule turned_trans)
  then show ?case by simp
qed

lemma updateProfit_closeDate [simp]: "closeDate (updateProfit p) = closeDate p"
  by (simp add: updateProfit_def)

lemma candleTurn_triggered:
  assumes "status p = ACTIVE" "stopTriggered k p"
  shows "status (candleTurn now k p) = CLOSED"
        "closeDate (candleTurn now k p) = Some now"
        "currentPrice (candleTurn now k p) = currentTrailingStop p"
        "currentTrailingStop (candleTurn now k p) = currentTrailingStop p"
        "highestPrice (candleTurn now k p) = highestPrice p"
  using assms
  by (simp_all add: candleTurn_def Let_def stopTriggered_updateProfit close_def)

lemma stopTriggered_passed:
  "stopTriggered k p \<Longrightarrow> passed p q \<Longrightarrow> stopTriggered k q"
  by (auto simp: stopTriggered_def passed_def)

lemma processPositions_stop_trigger:
  assumes "distinct js" "i \<in> set js" "\<forall>j\<in>set js. j < length (positions st)"
      and "status (positions st ! i) = ACTIVE" "stopTriggered k (positions st ! i)"
      and "processPositions gw now k js st = Inr st'"
  shows "closedAtStop now i st' \<and>
         highestPrice (positions st' ! i) = highestPrice (positions st ! i) \<and>
         currentTrailingStop (positions st ! i) \<le> currentTrailingStop (positions st' ! i)"
  using assms
proof (induction js arbitrary: st)
  case Nil
  then show ?case by simp
next
  case (Cons j js)
  from Cons.prems(6) obtain st1 where a: "processPosition gw now k j st = Inr st1"
    and b: "processPositions gw now k js st1 = Inr st'"
    by (auto split: sum.splits)
  have j: "j < length (positions st)" using Cons.prems(3) by simp
  have i: "i < length (positions st)" using Cons.prems(2,3) by auto
  have t1: "turned {j} st st1" using a j by (rule processPosition_turned)
  then have len: "length (positions st1) = length (positions st)" by (simp add: turned_def)
  then have js: "\<forall>j\<in>set js. j < length (positions st1)" using Cons.prems(3) by simp
  show ?case
  proof (cases "j = i")
    case True
    let ?p = "positions st ! i"
    have st1: "st1 = st\<lparr>positions := (positions st)[i := candleTurn now k ?p],
             profitHistory := profitHistory st @ [stopLossTrade now k ?p],
             resultsTrades := resultsTrades st @ [stopLossTrade now k ?p]\<rparr>"
      using a True processPosition_triggered [OF i Cons.prems(5), of gw now] by simp
    have ni: "i \<notin> set js" using Cons.prems(1) True by simp
    have t2: "turned (set js) st1 st'" using b js by (rule processPositions_turned)
    have c: "positions st1 ! i = candleTurn now k ?p" using i by (simp add: st1)
    have "passed (positions st1 ! i) (positions st' ! i)"
      using t2 ni i len by (simp add: turned_def)
    then have e: "positions st' ! i = candleTurn now k ?p"
      using candleTurn_triggered(1) [OF Cons.prems(4,5), of now] by (simp add: passed_def c)
    have tr: "stopLossTrade now k ?p =
        makeTrade (positions st' ! i) (currentTrailingStop (positions st' ! i)) ''StopLoss (Backtest)''"
      using candleTurn_triggered(4) [OF Cons.prems(4,5), of now] by (simp add: stopLossTrade_def e)
    have "stopLossTrade now k ?p \<in> set (profitHistory st1)"
         "stopLossTrade now k ?p \<in> set (resultsTrades st1)"
      by (simp_all add: st1)
    then have "stopLossTrade now k ?p \<in> set (profitHistory st')"
         "stopLossTrade now k ?p \<in> set (resultsTrades st')"
      using t2 by (auto simp: turned_def)
    then show ?thesis
      using candleTurn_triggered [OF Cons.prems(4,5), of now] tr
      by (simp add: closedAtStop_def e)
  next
    case False
    then have ii: "i \<in> set js" using Cons.prems(2) by simp
    have p: "passed (positions st ! i) (positions st1 ! i)"
      using t1 False i by (simp add: turned_def)
    then have s1: "status (positions st1 ! i) = ACTIVE" using Cons.prems(4) by (simp add: passed_def)
    have g1: "stopTriggered k (positions st1 ! i)" using Cons.prems(5) p by (rule stopTriggered_passed)
    have d: "distinct js" using Cons.prems(1) by simp
    have ih: "closedAtStop now i st' \<and>
         highestPrice (positions st' ! i) = highestPrice (positions st1 ! i) \<and>
         currentTrailingStop (positions st1 ! i) \<le> currentTrailingStop (positions st' ! i)"
      using Cons.IH [OF d ii js s1 g1 b] .
    have "0 < currentTrailingStop (positions st ! i)"
      using Cons.prems(5) by (simp add: stopTriggered_def)
    then have "currentTrailingStop (positions st ! i) \<le> currentTrailingStop (positions st1 ! i)"
      and "highestPrice (positions st1 ! i) = highestPrice (positions st ! i)"
      using p by (simp_all add: passed_def)
    then show ?thesis using ih by simp
  qed
qed

lemma getActivePositions_set:
  "set (getActivePositions st) = {i. i < length (positions st) \<and> status (positions st ! i) = ACTIVE}"
  by (auto simp: getActivePositions_def)

lemma getActivePositions_distinct: "distinct (getActivePositions st)"
  by (simp add: getActivePositions_def)

lemma processKline_Inr:
  assumes "processKline gw now k st = Inr st'"
  obtains st1 where "processPositions gw now k (getActivePositions st) st = Inr st1"
    and "updateTrailingStops gw st1 = Inr st'"
  using assms by (auto simp: processKline_def split: sum.splits)

lemma closedAtStop_passedState:
  assumes "closedAtStop now i st1" "passedState st1 st'" "i < length (positions st1)"
  shows "closedAtStop now i st' \<and> positions st' ! i = positions st1 ! i"
proof -
  have "passed (positions st1 ! i) (positions st' ! i)"
    using assms(2,3) by (simp add: passedState_def)
  then have "positions st' ! i = positions st1 ! i"
    using assms(1) by (simp add: passed_def closedAtStop_def)
  then show ?thesis using assms(1,2) by (simp add: closedAtStop_def passedState_def)
qed

lemma processKline_stop_trigger:
  assumes "i < length (positions st)" "status (positions st ! i) = ACTIVE"
      and "stopTriggered k (positions st ! i)"
      and "processKline gw now k st = Inr st'"
  shows "closedAtStop now i st' \<and>
         highestPrice (positions st' ! i) = highestPrice (positions st ! i) \<and>
         currentTrailingStop (positions st ! i) \<le> currentTrailingStop (positions st' ! i)"
proof -
  obtain st1 where a: "processPositions gw now k (getActivePositions st) st = Inr st1"
    and b: "updateTrailingStops gw st1 = Inr st'"
    using assms(4) by (rule processKline_Inr)
  have m: "i \<in> set (getActivePositions st)" using assms(1,2) by (simp add: getActivePositions_set)
  have l: "\<forall>j\<in>set (getActivePositions st). j < length (positions st)"
    by (simp add: getActivePositions_set)
  have c: "closedAtStop now i st1 \<and>
         highestPrice (positions st1 ! i) = highestPrice (positions st ! i) \<and>
         currentTrailingStop (positions st ! i) \<le> currentTrailingStop (positions st1 ! i)"
    using getActivePositions_distinct m l assms(2,3) a by (rule processPositions_stop_trigger)
  have "turned (set (getActivePositions st)) st st1" using a l by (rule processPositions_turned)
  then have i1: "i < length (positions st1)" using assms(1) by (simp add: turned_def)
  have p: "passedState st1 st'" using b by (rule updateTrailingStops_passedState)
  have "closedAtStop now i st' \<and> positions st' ! i = positions st1 ! i"
    using c p i1 closedAtStop_passedState by blast
  then show ?thesis using c by simp
qed

lemma processPosition_total:
  assumes "\<forall>n. gw n \<noteq> None" "i < length (positions st)"
  shows "\<exists>st'. processPosition gw now k i st = Inr st'"
proof (cases "stopTriggered k (positions st ! i)")
  case True
  then show ?thesis using assms(2) by (simp add: processPosition_triggered)
next
  case False
  show ?thesis
  proof (cases "status (positions st ! i) = ACTIVE")
    case True
    then show ?thesis
      using False assms by (simp add: processPosition_untriggered updateTrailingStops_total)
  next
    case n: False
    then show ?thesis using False assms(2) by (simp add: processPosition_inactive)
  qed
qed

lemma processPositions_total:
  "\<forall>n. gw n \<noteq> None \<Longrightarrow> \<forall>j\<in>set js. j < length (positions st) \<Longrightarrow>
   \<exists>st'. processPositions gw now k js st = Inr st'"
proof (induction js arbitrary: st)
  case Nil
  then show ?case by simp
next
  case (Cons i js)
  have i: "i < length (positions st)" using Cons.prems(2) by simp
  obtain st1 where a: "processPosition gw now k i st = Inr st1"
    using processPosition_total [OF Cons.prems(1) i] by blast
  have "turned {i} st st1" using a i by (rule processPosition_turned)
  then have "\<forall>j\<in>set js. j < length (positions st1)"
    using Cons.prems(2) by (simp add: turned_def)
  then obtain st' where "processPositions gw now k js st1 = Inr st'"
    using Cons.IH [OF Cons.prems(1)] by blast
  then show ?case using a by simp
qed

lemma processKline_total:
  assumes "\<forall>n. gw n \<noteq> None"
  shows "\<exists>st'. processKline gw now k st = Inr st'"
proof -
  have "\<forall>j\<in>set (getActivePositions st). j < length (positions st)"
    by (simp add: getActivePositions_set)
  then obtain st1 where "processPositions gw now k (getActivePositions st) st = Inr st1"
    using processPositions_total [OF assms] by blast
  then show ?thesis
    using updateTrailingStops_total [OF assms, of st1] by (auto simp: processKline_def)
qed

lemmas simulation_defs =
  processKline_def getActivePositions_def updateTrailingStops_def closePosition_def
  processPosition_def updateTrailingStopAt_def
  makeTrade_def updateStopOrder_def idTruthy_def exampleSimulation_def exampleCandle_def
  exampleGateway_def stopsOf_def statusAndStop_def tradesOf_def
  spec_processKline_def spec_updatePosition_def spec_batchedUpdate_def

text \<open>
  C2, as stated, fails in the reason: the trade that a triggered stop records carries the
  reason \<^verbatim>\<open>StopLoss (Backtest)\<close>, not \<^verbatim>\<open>StopLoss\<close>.
\<close>

theorem stop_trigger_reason_counterexample:
  "map t_reason (tradesOf (processKline exampleGateway 7 (exampleCandle 100 97 99)
      (exampleSimulation [examplePosition 100 100 98]))) = [''StopLoss (Backtest)''] \<and>
   map t_exitPrice (tradesOf (processKline exampleGateway 7 (exampleCandle 100 97 99)
      (exampleSimulation [examplePosition 100 100 98]))) = [98] \<and>
   ''StopLoss (Backtest)'' \<noteq> ''StopLoss''"
  by (simp add: simulation_defs example_defs)

text \<open>
  C2, amended.  In the per-candle step, when the loop body reaches an active position
  whose stop is positive and not below the low of the candle, it closes the position at
  exactly its \<^verbatim>\<open>currentTrailingStop\<close> with the reason \<^verbatim>\<open>StopLoss (Backtest)\<close>, a string
  that includes \<^verbatim>\<open>StopLoss\<close>, and appends the trade to \<^verbatim>\<open>profitHistory\<close> and to
  \<^verbatim>\<open>results.trades\<close>; no trailing-stop update runs in that pass of the loop body.  For the
  whole step of a candle: a position that is active with such a stop when the step starts
  is closed when the step has completed, at its stop at the time of the check (never below
  the stop at the start), the trade is recorded in both lists, and the high of the candle
  has not been applied to it.
\<close>

theorem stop_trigger_closes_position:
  "i < length (positions st) \<and> status (positions st ! i) = ACTIVE \<and>
   0 < currentTrailingStop (positions st ! i) \<and> low k \<le> currentTrailingStop (positions st ! i) \<longrightarrow>
     processPosition gw now k i st =
       Inr (st\<lparr>positions := (positions st)[i := candleTurn now k (positions st ! i)],
               profitHistory := profitHistory st @ [stopLossTrade now k (positions st ! i)],
               resultsTrades := resultsTrades st @ [stopLossTrade now k (positions st ! i)]\<rparr>) \<and>
     status (candleTurn now k (positions st ! i)) = CLOSED \<and>
     currentPrice (candleTurn now k (positions st ! i)) = currentTrailingStop (positions st ! i) \<and>
     highestPrice (candleTurn now k (positions st ! i)) = highestPrice (positions st ! i) \<and>
     t_exitPrice (stopLossTrade now k (positions st ! i)) = currentTrailingStop (positions st ! i) \<and>
     t_reason (stopLossTrade now k (positions st ! i)) = ''StopLoss (Backtest)'' \<and>
     includesStr (t_reason (stopLossTrade now k (positions st ! i))) ''StopLoss'' \<and>
     (processKline gw now k st = Inr st' \<longrightarrow>
        status (positions st' ! i) = CLOSED \<and>
        currentPrice (positions st' ! i) = currentTrailingStop (positions st' ! i) \<and>
        highestPrice (positions st' ! i) = highestPrice (positions st ! i) \<and>
        currentTrailingStop (positions st ! i) \<le> currentTrailingStop (positions st' ! i) \<and>
        makeTrade (positions st' ! i) (currentTrailingStop (positions st' ! i))
          ''StopLoss (Backtest)'' \<in> set (profitHistory st') \<inter> set (resultsTrades st'))"
proof (intro impI)
  assume a: "i < length (positions st) \<and> status (positions st ! i) = ACTIVE \<and>
   0 < currentTrailingStop (positions st ! i) \<and> low k \<le> currentTrailingStop (positions st ! i)"
  then have i: "i < length (positions st)" and s: "status (positions st ! i) = ACTIVE"
    and t: "stopTriggered k (positions st ! i)"
    by (simp_all add: stopTriggered_def)
  have 1: "processPosition gw now k i st =
       Inr (st\<lparr>positions := (positions st)[i := candleTurn now k (positions st ! i)],
               profitHistory := profitHistory st @ [stopLossTrade now k (positions st ! i)],
               resultsTrades := resultsTrades st @ [stopLossTrade now k (positions st ! i)]\<rparr>)"
    using i t by (rule processPosition_triggered)
  have 2: "t_exitPrice (stopLossTrade now k (positions st ! i)) = currentTrailingStop (positions st ! i)"
    "t_reason (stopLossTrade now k (positions st ! i)) = ''StopLoss (Backtest)''"
    by (simp_all add: stopLossTrade_def makeTrade_def)
  have 3: "includesStr (t_reason (stopLossTrade now k (positions st ! i))) ''StopLoss''"
    unfolding 2 by (rule includesStr_stopLoss)
  have 4: "processKline gw now k st = Inr st' \<longrightarrow>
        status (positions st' ! i) = CLOSED \<and>
        currentPrice (positions st' ! i) = currentTrailingStop (positions st' ! i) \<and>
        highestPrice (positions st' ! i) = highestPrice (positions st ! i) \<and>
        currentTrailingStop (positions st ! i) \<le> currentTrailingStop (positions st' ! i) \<and>
        makeTrade (positions st' ! i) (currentTrailingStop (positions st' ! i))
          ''StopLoss (Backtest)'' \<in> set (profitHistory st') \<inter> set (resultsTrades st')"
  proof
    assume "processKline gw now k st = Inr st'"
    then show "status (positions st' ! i) = CLOSED \<and>
        currentPrice (positions st' ! i) = currentTrailingStop (positions st' ! i) \<and>
        highestPrice (positions st' ! i) = highestPrice (positions st ! i) \<and>
        currentTrailingStop (positions st ! i) \<le> currentTrailingStop (positions st' ! i) \<and>
        makeTrade (positions st' ! i) (currentTrailingStop (positions st' ! i))
          ''StopLoss (Backtest)'' \<in> set (profitHistory st') \<inter> set (resultsTrades st')"
      using processKline_stop_trigger [OF i s t, of gw now st'] by (simp add: closedAtStop_def)
  qed
  show "processPosition gw now k i st =
       Inr (st\<lparr>positions := (positions st)[i := candleTurn now k (positions st ! i)],
               profitHistory := profitHistory st @ [stopLossTrade now k (positions st ! i)],
               resultsTrades := resultsTrades st @ [stopLossTrade now k (positions st ! i)]\<rparr>) \<and>
     status (candleTurn now k (positions st ! i)) = CLOSED \<and>
     currentPrice (candleTurn now k (positions st ! i)) = currentTrailingStop (positions st ! i) \<and>
     highestPrice (candleTurn now k (positions st ! i)) = highestPrice (positions st ! i) \<and>
     t_exitPrice (stopLossTrade now k (positions st ! i)) = currentTrailingStop (positions st ! i) \<and>
     t_reason (stopLossTrade now k (positions st ! i)) = ''StopLoss (Backtest)'' \<and>
     includesStr (t_reason (stopLossTrade now k (positions st ! i))) ''StopLoss'' \<and>
     (processKline gw now k st = Inr st' \<longrightarrow>
        status (positions st' ! i) = CLOSED \<and>
        currentPrice (positions st' ! i) = currentTrailingStop (positions st' ! i) \<and>
        highestPrice (positions st' ! i) = highestPrice (positions st ! i) \<and>
        currentTrailingStop (positions st ! i) \<le> currentTrailingStop (positions st' ! i) \<and>
        makeTrade (positions st' ! i) (currentTrailingStop (positions st' ! i))
          ''StopLoss (Backtest)'' \<in> set (profitHistory st') \<inter> set (resultsTrades st'))"
    using 1 2 3 4 candleTurn_triggered(1,3,5) [OF s t, of now] by blast
qed

lemma exampleGateway_total: "\<forall>n. exampleGateway n \<noteq> None"
  by (simp add: exampleGateway_def)

theorem stop_trigger_closes_position_witness:
  "stopsOf (processKline exampleGateway 7 (exampleCandle 100 97 99)
      (exampleSimulation [examplePosition 100 100 95, examplePosition 100 100 98])) =
     Some [(ACTIVE, 95), (CLOSED, 98)] \<and>
   (case processKline exampleGateway 7 (exampleCandle 100 97 99)
      (exampleSimulation [examplePosition 100 100 95, examplePosition 100 100 98]) of
      Inl e \<Rightarrow> False
    | Inr st' \<Rightarrow>
        currentPrice (positions st' ! 1) = currentTrailingStop (positions st' ! 1) \<and>
        highestPrice (positions st' ! 1) = 100)"
proof -
  let ?st = "exampleSimulation [examplePosition 100 100 95, examplePosition 100 100 98]"
  let ?k = "exampleCandle 100 97 99"
  have h: "1 < length (positions ?st) \<and> status (positions ?st ! 1) = ACTIVE \<and>
   0 < currentTrailingStop (positions ?st ! 1) \<and> low ?k \<le> currentTrailingStop (positions ?st ! 1)"
    by (simp add: exampleSimulation_def examplePosition_def exampleCandle_def)
  have hp: "highestPrice (positions ?st ! 1) = 100"
    by (simp add: exampleSimulation_def examplePosition_def)
  have e: "stopsOf (processKline exampleGateway 7 ?k ?st) = Some [(ACTIVE, 95), (CLOSED, 98)]"
    by (simp add: simulation_defs example_defs)
  obtain st' where r: "processKline exampleGateway 7 ?k ?st = Inr st'"
    using processKline_total [OF exampleGateway_total] by blast
  have "currentPrice (positions st' ! 1) = currentTrailingStop (positions st' ! 1) \<and>
      highestPrice (positions st' ! 1) = 100"
    using stop_trigger_closes_position [of 1 ?st ?k exampleGateway 7 st'] h hp r by metis
  then show ?thesis using e by (simp add: r)
qed

section \<open>The nested calls of updateTrailingStops and the batched step\<close>

lemma noOrder_eq: "noOrder q = noOrder r \<Longrightarrow> q = r\<lparr>stopOrderId := stopOrderId q\<rparr>"
proof -
  assume "noOrder q = noOrder r"
  then have "(noOrder q)\<lparr>stopOrderId := stopOrderId q\<rparr> = (noOrder r)\<lparr>stopOrderId := stopOrderId q\<rparr>"
    by simp
  then show ?thesis by (simp add: noOrder_def)
qed

lemma settled_order: "settled cfg p \<Longrightarrow> settled cfg (p\<lparr>stopOrderId := x\<rparr>)"
  by (auto simp: settled_def updateTrailingStop_order)

lemma settled_after_update:
  assumes "0 < currentTrailingStop p"
  shows "settled cfg (snd (updateTrailingStop cfg p))"
proof -
  have nz: "currentTrailingStop p \<noteq> 0" using assms by simp
  have m: "currentTrailingStop p \<le> currentTrailingStop (snd (updateTrailingStop cfg p))"
    using nz by (rule updateTrailingStop_mono)
  then have nz': "currentTrailingStop (snd (updateTrailingStop cfg p)) \<noteq> 0" using assms by simp
  have "updateTrailingStop cfg (snd (updateTrailingStop cfg p)) = updateTrailingStop cfg p"
    using nz nz' by (rule updateTrailingStop_idem)
  then show ?thesis using m assms by (simp add: settled_def)
qed

lemma candleTurn_untriggered:
  assumes "\<not> stopTriggered k p"
  shows "status (candleTurn now k p) = status p"
        "currentTrailingStop (candleTurn now k p) = currentTrailingStop p"
  using assms
  by (simp_all add: candleTurn_def Let_def stopTriggered_updateProfit raiseHighest_def)

lemma updateTrailingStop_notes:
  "updateTrailingStop s (p\<lparr>posNotes := n\<rparr>) =
     (fst (updateTrailingStop s p), (snd (updateTrailingStop s p))\<lparr>posNotes := n\<rparr>)"
  by (simp add: updateTrailingStop_def setInitialStop_def updateProfit_def resolveSettings_def
      Let_def)

lemma statusAndStop_notes:
  "statusAndStop (spec_batchedUpdate cfg (p\<lparr>posNotes := n\<rparr>)) =
   statusAndStop (spec_batchedUpdate cfg p)"
  by (simp add: statusAndStop_def spec_batchedUpdate_def updateTrailingStop_notes)

lemma spec_updatePosition_candleTurn:
  assumes "status p = ACTIVE"
  shows "spec_updatePosition now k p =
           (candleTurn now k p)\<lparr>posNotes := posNotes (spec_updatePosition now k p)\<rparr>"
proof (cases "stopTriggered k p")
  case True
  then have t: "stopTriggered k (updateProfit (p\<lparr>currentPrice := k_close k\<rparr>))"
    by (simp add: stopTriggered_updateProfit)
  then have t': "0 < currentTrailingStop p \<and> low k \<le> currentTrailingStop p"
    by (simp add: stopTriggered_def)
  show ?thesis
    using assms t t'
    by (simp add: spec_updatePosition_def candleTurn_def Let_def close_def)
next
  case False
  then have t: "\<not> stopTriggered k (updateProfit (p\<lparr>currentPrice := k_close k\<rparr>))"
    by (simp add: stopTriggered_updateProfit)
  then have t': "(0 < currentTrailingStop p \<and> low k \<le> currentTrailingStop p) = False"
    by (simp add: stopTriggered_def)
  show ?thesis
    using assms t
    by (simp add: spec_updatePosition_def candleTurn_def Let_def raiseHighest_def t')
qed

lemma spec_step_statusAndStop:
  assumes "status p = ACTIVE"
  shows "statusAndStop (spec_batchedUpdate cfg (spec_updatePosition now k p)) =
         statusAndStop (spec_batchedUpdate cfg (candleTurn now k p))"
proof -
  have "statusAndStop (spec_batchedUpdate cfg (spec_updatePosition now k p)) =
        statusAndStop (spec_batchedUpdate cfg
          ((candleTurn now k p)\<lparr>posNotes := posNotes (spec_updatePosition now k p)\<rparr>))"
    using spec_updatePosition_candleTurn [OF assms, of now k] by simp
  then show ?thesis by (simp only: statusAndStop_notes)
qed

lemma spec_step_inactive:
  "status p \<noteq> ACTIVE \<Longrightarrow> spec_batchedUpdate cfg (spec_updatePosition now k p) = p"
  by (simp add: spec_updatePosition_def)

text \<open>
  Storing the resolved settings commutes with the methods of a position and does not
  change what a later call of \<^verbatim>\<open>updateTrailingStop\<close> with the same settings does.
\<close>

lemma resolved_fields [simp]:
  "status (resolved cfg p) = status p"
  "currentTrailingStop (resolved cfg p) = currentTrailingStop p"
  "trailingSettings (resolved cfg p) = assignSettings (resolveSettings cfg p) (trailingSettings p)"
  by (simp_all add: resolved_def)

lemma resolveSettings_resolved: "resolveSettings cfg (resolved cfg p) = resolveSettings cfg p"
  by (rule resolveSettings_assign) simp

lemma resolved_idem: "resolved cfg (resolved cfg p) = resolved cfg p"
  by (simp add: resolved_def resolveSettings_resolved [unfolded resolved_def] assignSettings_idem)

lemma updateTrailingStop_resolved:
  "updateTrailingStop cfg (resolved cfg p) = updateTrailingStop cfg p"
proof -
  have a: "resolveSettings cfg (resolved cfg p) = resolveSettings cfg p"
    by (rule resolveSettings_resolved)
  have b: "(resolved cfg p)\<lparr>trailingSettings :=
             assignSettings (resolveSettings cfg p) (trailingSettings (resolved cfg p))\<rparr> =
           p\<lparr>trailingSettings := assignSettings (resolveSettings cfg p) (trailingSettings p)\<rparr>"
    by (simp add: resolved_def assignSettings_idem)
  show ?thesis by (simp only: updateTrailingStop_def Let_def a b)
qed

lemma resolved_after_update:
  "resolved cfg (snd (updateTrailingStop cfg p)) = snd (updateTrailingStop cfg p)"
proof -
  let ?q = "snd (updateTrailingStop cfg p)"
  have t: "trailingSettings ?q = assignSettings (resolveSettings cfg p) (trailingSettings p)"
    by (rule updateTrailingStop_settings)
  then have "resolveSettings cfg ?q = resolveSettings cfg p" by (rule resolveSettings_assign)
  then have "resolved cfg ?q = ?q\<lparr>trailingSettings := trailingSettings ?q\<rparr>"
    by (simp add: resolved_def t assignSettings_idem)
  then show ?thesis by simp
qed

lemma settled_calm: "settled cfg p \<Longrightarrow> calm cfg p"
proof -
  assume s: "settled cfg p"
  show ?thesis
  proof (cases "status p = ACTIVE")
    case True
    then have a: "0 < currentTrailingStop p" and b: "snd (updateTrailingStop cfg p) = p"
      using s by (simp_all add: settled_def)
    have "resolved cfg (snd (updateTrailingStop cfg p)) = snd (updateTrailingStop cfg p)"
      by (rule resolved_after_update)
    then have "resolved cfg p = p" unfolding b .
    then show ?thesis using a b by (simp add: calm_def)
  next
    case False
    then show ?thesis by (simp add: calm_def)
  qed
qed

lemma candleTurn_settings:
  "candleTurn now k (p\<lparr>trailingSettings := x\<rparr>) = (candleTurn now k p)\<lparr>trailingSettings := x\<rparr>"
  by (simp add: candleTurn_def Let_def stopTriggered_def raiseHighest_def close_def
      updateProfit_def)

lemma candleTurn_order:
  "candleTurn now k (p\<lparr>stopOrderId := x\<rparr>) = (candleTurn now k p)\<lparr>stopOrderId := x\<rparr>"
  by (simp add: candleTurn_def Let_def stopTriggered_def raiseHighest_def close_def
      updateProfit_def)

lemma candleTurn_resolved:
  "candleTurn now k (resolved cfg p) = resolved cfg (candleTurn now k p)"
proof -
  have "resolveSettings cfg (candleTurn now k p) = resolveSettings cfg p"
    by (rule resolveSettings_cong) (rule candleTurn_fields(2))
  then show ?thesis
    by (simp add: resolved_def candleTurn_settings candleTurn_fields(2))
qed

lemma noOrder_update:
  assumes "noOrder q = noOrder t"
  shows "noOrder (spec_batchedUpdate cfg q) = noOrder (spec_batchedUpdate cfg t)"
proof -
  have q: "q = t\<lparr>stopOrderId := stopOrderId q\<rparr>" using assms by (rule noOrder_eq)
  have "spec_batchedUpdate cfg (t\<lparr>stopOrderId := stopOrderId q\<rparr>) =
        (spec_batchedUpdate cfg t)\<lparr>stopOrderId := stopOrderId q\<rparr>"
    by (simp add: spec_batchedUpdate_def updateTrailingStop_order)
  then have "noOrder (spec_batchedUpdate cfg (t\<lparr>stopOrderId := stopOrderId q\<rparr>)) =
        noOrder (spec_batchedUpdate cfg t)"
    by (simp add: noOrder_def)
  then show ?thesis using q by simp
qed

lemma noOrder_candleTurn:
  assumes "noOrder q = noOrder t"
  shows "noOrder (candleTurn now k q) = noOrder (candleTurn now k t)"
proof -
  have q: "q = t\<lparr>stopOrderId := stopOrderId q\<rparr>" using assms by (rule noOrder_eq)
  have "noOrder (candleTurn now k (t\<lparr>stopOrderId := stopOrderId q\<rparr>)) =
        noOrder (candleTurn now k t)"
    by (simp add: candleTurn_order noOrder_def)
  then show ?thesis using q by simp
qed

lemma noOrder_resolved:
  assumes "noOrder q = noOrder t"
  shows "noOrder (resolved cfg q) = noOrder (resolved cfg t)"
proof -
  have q: "q = t\<lparr>stopOrderId := stopOrderId q\<rparr>" using assms by (rule noOrder_eq)
  have "resolveSettings cfg (t\<lparr>stopOrderId := stopOrderId q\<rparr>) = resolveSettings cfg t"
    by (rule resolveSettings_cong) simp
  then have "noOrder (resolved cfg (t\<lparr>stopOrderId := stopOrderId q\<rparr>)) =
        noOrder (resolved cfg t)"
    by (simp add: resolved_def noOrder_def)
  then show ?thesis using q by simp
qed

lemma noOrder_fields:
  assumes "noOrder q = noOrder t"
  shows "status q = status t" "currentTrailingStop q = currentTrailingStop t"
proof -
  have "status (noOrder q) = status (noOrder t)"
       "currentTrailingStop (noOrder q) = currentTrailingStop (noOrder t)"
    using assms by simp_all
  then show "status q = status t" "currentTrailingStop q = currentTrailingStop t"
    by (simp_all add: noOrder_def)
qed

lemma sameUpTo_refl: "sameUpTo cfg t t"
  by (simp add: sameUpTo_def)

lemma sameUpTo_fields:
  assumes "sameUpTo cfg t q"
  shows "status q = status t" "currentTrailingStop q = currentTrailingStop t"
  using assms noOrder_fields [of q t] noOrder_fields [of q "resolved cfg t"]
  by (auto simp: sameUpTo_def)

lemma sameUpTo_statusAndStop: "sameUpTo cfg t q \<Longrightarrow> statusAndStop q = statusAndStop t"
  using sameUpTo_fields [of cfg t q] by (simp add: statusAndStop_def)

lemma sameUpTo_stopTriggered: "sameUpTo cfg t q \<Longrightarrow> stopTriggered k q = stopTriggered k t"
  using sameUpTo_fields [of cfg t q] by (simp add: stopTriggered_def)

lemma spec_batchedUpdate_resolved:
  "status t = ACTIVE \<Longrightarrow> spec_batchedUpdate cfg (resolved cfg t) = spec_batchedUpdate cfg t"
  by (simp add: spec_batchedUpdate_def updateTrailingStop_resolved)

lemma calm_pass:
  assumes c: "calm cfg t" and s: "sameUpTo cfg t q"
      and x: "noOrder x = noOrder (spec_batchedUpdate cfg q)"
  shows "sameUpTo cfg t x"
proof (cases "status t = ACTIVE")
  case False
  then have "status q \<noteq> ACTIVE" using sameUpTo_fields(1) [OF s] by simp
  then have "noOrder x = noOrder q" using x by simp
  then show ?thesis using s by (simp add: sameUpTo_def)
next
  case True
  then have u: "spec_batchedUpdate cfg t = resolved cfg t"
    using c by (simp add: calm_def spec_batchedUpdate_def)
  have "noOrder (spec_batchedUpdate cfg q) = noOrder (resolved cfg t)"
  proof (cases "noOrder q = noOrder t")
    case True
    then show ?thesis using noOrder_update [of q t cfg] u by simp
  next
    case False
    then have "noOrder q = noOrder (resolved cfg t)" using s by (simp add: sameUpTo_def)
    then have "noOrder (spec_batchedUpdate cfg q) =
        noOrder (spec_batchedUpdate cfg (resolved cfg t))"
      by (rule noOrder_update)
    then show ?thesis using spec_batchedUpdate_resolved [OF True, of cfg] u by simp
  qed
  then show ?thesis using x by (simp add: sameUpTo_def)
qed

lemma sameUpTo_candleTurn:
  assumes "sameUpTo cfg t q"
  shows "sameUpTo cfg (candleTurn now k t) (candleTurn now k q)"
proof (cases "noOrder q = noOrder t")
  case True
  then show ?thesis using noOrder_candleTurn [of q t now k] by (simp add: sameUpTo_def)
next
  case False
  then have "noOrder q = noOrder (resolved cfg t)" using assms by (simp add: sameUpTo_def)
  then have "noOrder (candleTurn now k q) = noOrder (candleTurn now k (resolved cfg t))"
    by (rule noOrder_candleTurn)
  then show ?thesis by (simp add: sameUpTo_def candleTurn_resolved)
qed

lemma sameUpTo_turn_pass:
  assumes a: "status t = ACTIVE" and n: "\<not> stopTriggered k t" and s: "sameUpTo cfg t q"
      and x: "noOrder x = noOrder (spec_batchedUpdate cfg (candleTurn now k q))"
  shows "noOrder x = noOrder (spec_batchedUpdate cfg (candleTurn now k t))"
proof -
  have ca: "status (candleTurn now k t) = ACTIVE"
    using a candleTurn_untriggered(1) [OF n, of now] by simp
  have "sameUpTo cfg (candleTurn now k t) (candleTurn now k q)"
    using s by (rule sameUpTo_candleTurn)
  then consider "noOrder (candleTurn now k q) = noOrder (candleTurn now k t)"
    | "noOrder (candleTurn now k q) = noOrder (resolved cfg (candleTurn now k t))"
    by (auto simp: sameUpTo_def)
  then have "noOrder (spec_batchedUpdate cfg (candleTurn now k q)) =
      noOrder (spec_batchedUpdate cfg (candleTurn now k t))"
  proof cases
    case 1
    then show ?thesis by (rule noOrder_update)
  next
    case 2
    then have "noOrder (spec_batchedUpdate cfg (candleTurn now k q)) =
        noOrder (spec_batchedUpdate cfg (resolved cfg (candleTurn now k t)))"
      by (rule noOrder_update)
    then show ?thesis using spec_batchedUpdate_resolved [OF ca, of cfg] by simp
  qed
  then show ?thesis using x by simp
qed

lemma target_settled:
  assumes a: "status t = ACTIVE" and p: "0 < currentTrailingStop t"
  shows "settled cfg (spec_batchedUpdate cfg (candleTurn now k t))"
proof (cases "stopTriggered k t")
  case True
  then have "status (candleTurn now k t) = CLOSED" using a candleTurn_triggered(1) by blast
  then show ?thesis by (simp add: settled_def)
next
  case False
  have ca: "status (candleTurn now k t) = ACTIVE"
    using a candleTurn_untriggered(1) [OF False, of now] by simp
  have "0 < currentTrailingStop (candleTurn now k t)"
    using p candleTurn_untriggered(2) [OF False, of now] by simp
  then have "settled cfg (snd (updateTrailingStop cfg (candleTurn now k t)))"
    by (rule settled_after_update)
  then show ?thesis using ca by (simp add: spec_batchedUpdate_def)
qed

lemma settled_resolved:
  assumes "settled cfg t" "status t = ACTIVE"
  shows "resolved cfg t = t"
proof -
  have b: "snd (updateTrailingStop cfg t) = t" using assms by (simp add: settled_def)
  have "resolved cfg (snd (updateTrailingStop cfg t)) = snd (updateTrailingStop cfg t)"
    by (rule resolved_after_update)
  then show ?thesis unfolding b .
qed

lemma sameUpTo_settled:
  assumes s: "settled cfg t" and u: "sameUpTo cfg t q"
  shows "settled cfg q"
proof (cases "status t = ACTIVE")
  case False
  then have "status q \<noteq> ACTIVE" using sameUpTo_fields(1) [OF u] by simp
  then show ?thesis by (simp add: settled_def)
next
  case True
  have "resolved cfg t = t" using s True by (rule settled_resolved)
  then have "noOrder q = noOrder t" using u by (simp add: sameUpTo_def)
  then have "q = t\<lparr>stopOrderId := stopOrderId q\<rparr>" by (rule noOrder_eq)
  moreover have "settled cfg (t\<lparr>stopOrderId := stopOrderId q\<rparr>)" using s by (rule settled_order)
  ultimately show ?thesis by simp
qed

text \<open>
  The passes of \<^verbatim>\<open>updateTrailingStops\<close> and the loop body, position by position.  In the
  loop over the active positions, \<open>T j\<close> is the position that the batched step has
  reached for index \<open>j\<close>: the state holds it up to the stop order id and the stored
  settings.
\<close>

lemma updateTrailingStopsLoop_noOrder:
  assumes "distinct js" and "\<forall>j\<in>set js. j < length (positions st)"
      and "updateTrailingStopsLoop gw js st = Inr st'"
  shows "trailingStop st' = trailingStop st \<and> length (positions st') = length (positions st) \<and>
         (\<forall>j<length (positions st).
            noOrder (positions st' ! j) =
            noOrder (if j \<in> set js then spec_batchedUpdate (trailingStop st) (positions st ! j)
                     else positions st ! j))"
  using assms
proof (induction js arbitrary: st)
  case Nil
  then show ?case by simp
next
  case (Cons i js)
  from Cons.prems(3) obtain st1 where a: "updateTrailingStopAt gw i st = Inr st1"
    and b: "updateTrailingStopsLoop gw js st1 = Inr st'"
    by (auto split: sum.splits)
  have i: "i < length (positions st)" using Cons.prems(2) by simp
  obtain q c where st1: "st1 = st\<lparr>positions := (positions st)[i := q], orderCount := c\<rparr>"
    and q: "noOrder q = noOrder (spec_batchedUpdate (trailingStop st) (positions st ! i))"
    using updateTrailingStopAt_Inr [OF a i] by blast
  have ni: "i \<notin> set js" and d: "distinct js" using Cons.prems(1) by simp_all
  have l1: "\<forall>j\<in>set js. j < length (positions st1)" using Cons.prems(2) by (simp add: st1)
  have ih: "trailingStop st' = trailingStop st1 \<and>
         length (positions st') = length (positions st1) \<and>
         (\<forall>j<length (positions st1).
            noOrder (positions st' ! j) =
            noOrder (if j \<in> set js then spec_batchedUpdate (trailingStop st1) (positions st1 ! j)
                     else positions st1 ! j))"
    using Cons.IH [OF d l1 b] .
  have "\<forall>j<length (positions st).
            noOrder (positions st' ! j) =
            noOrder (if j \<in> set (i # js)
                     then spec_batchedUpdate (trailingStop st) (positions st ! j)
                     else positions st ! j)"
  proof (intro allI impI)
    fix j assume j: "j < length (positions st)"
    show "noOrder (positions st' ! j) =
            noOrder (if j \<in> set (i # js)
                     then spec_batchedUpdate (trailingStop st) (positions st ! j)
                     else positions st ! j)"
    proof (cases "j = i")
      case True
      then have "noOrder (positions st' ! j) = noOrder (positions st1 ! i)"
        using ih ni i by (simp add: st1)
      then show ?thesis using q i True by (simp add: st1)
    next
      case False
      then have "positions st1 ! j = positions st ! j" by (simp add: st1)
      then show ?thesis using ih j False by (simp add: st1)
    qed
  qed
  then show ?case using ih by (simp add: st1)
qed

lemma updateTrailingStops_noOrder:
  assumes "updateTrailingStops gw st = Inr st'"
  shows "trailingStop st' = trailingStop st \<and> length (positions st') = length (positions st) \<and>
         (\<forall>j<length (positions st).
            noOrder (positions st' ! j) =
            noOrder (spec_batchedUpdate (trailingStop st) (positions st ! j)))"
  using updateTrailingStopsLoop_noOrder [of "[0..<length (positions st)]" st gw st'] assms
  by (simp add: updateTrailingStops_def)

lemma processPosition_hit:
  assumes "i < length (positions st)" "stopTriggered k (positions st ! i)"
      and "processPosition gw now k i st = Inr st'"
  shows "trailingStop st' = trailingStop st \<and> length (positions st') = length (positions st) \<and>
         positions st' = (positions st)[i := candleTurn now k (positions st ! i)]"
  using assms(3) processPosition_triggered [OF assms(1,2), of gw now] by auto

lemma processPosition_miss:
  assumes i: "i < length (positions st)" and n: "\<not> stopTriggered k (positions st ! i)"
      and a: "status (positions st ! i) = ACTIVE"
      and r: "processPosition gw now k i st = Inr st'"
  shows "trailingStop st' = trailingStop st \<and> length (positions st') = length (positions st) \<and>
         (\<forall>j<length (positions st).
            noOrder (positions st' ! j) =
            noOrder (spec_batchedUpdate (trailingStop st)
              (if j = i then candleTurn now k (positions st ! i) else positions st ! j)))"
proof -
  let ?st2 = "st\<lparr>positions := (positions st)[i := candleTurn now k (positions st ! i)]\<rparr>"
  have "updateTrailingStops gw ?st2 = Inr st'"
    using r processPosition_untriggered [OF i n a, of gw now] by simp
  then have u: "trailingStop st' = trailingStop ?st2 \<and>
         length (positions st') = length (positions ?st2) \<and>
         (\<forall>j<length (positions ?st2).
            noOrder (positions st' ! j) =
            noOrder (spec_batchedUpdate (trailingStop ?st2) (positions ?st2 ! j)))"
    by (rule updateTrailingStops_noOrder)
  have "\<forall>j<length (positions st).
            noOrder (positions st' ! j) =
            noOrder (spec_batchedUpdate (trailingStop st)
              (if j = i then candleTurn now k (positions st ! i) else positions st ! j))"
  proof (intro allI impI)
    fix j assume j: "j < length (positions st)"
    have "positions ?st2 ! j =
        (if j = i then candleTurn now k (positions st ! i) else positions st ! j)"
      using j by (simp add: nth_list_update)
    then show "noOrder (positions st' ! j) =
            noOrder (spec_batchedUpdate (trailingStop st)
              (if j = i then candleTurn now k (positions st ! i) else positions st ! j))"
      using u j by simp
  qed
  then show ?thesis using u by simp
qed

lemma processPosition_targets:
  assumes i: "i < length (positions st)"
      and a: "status (T i) = ACTIVE" and p: "0 < currentTrailingStop (T i)"
      and c: "\<not> stopTriggered k (T i) \<longrightarrow>
                (\<forall>j<length (positions st). j \<noteq> i \<longrightarrow> calm (trailingStop st) (T j))"
      and s: "\<forall>j<length (positions st). sameUpTo (trailingStop st) (T j) (positions st ! j)"
      and r: "processPosition gw now k i st = Inr st'"
  shows "trailingStop st' = trailingStop st \<and> length (positions st') = length (positions st) \<and>
         (\<forall>j<length (positions st).
            sameUpTo (trailingStop st)
              (if j = i then spec_batchedUpdate (trailingStop st) (candleTurn now k (T i))
               else T j)
              (positions st' ! j))"
proof -
  let ?cfg = "trailingStop st"
  let ?q = "positions st ! i"
  have si: "sameUpTo ?cfg (T i) ?q" using s i by simp
  have qa: "status ?q = ACTIVE" using sameUpTo_fields(1) [OF si] a by simp
  have tq: "stopTriggered k ?q = stopTriggered k (T i)" using si by (rule sameUpTo_stopTriggered)
  show ?thesis
  proof (cases "stopTriggered k (T i)")
    case True
    then have t: "stopTriggered k ?q" using tq by simp
    have h: "trailingStop st' = ?cfg \<and> length (positions st') = length (positions st) \<and>
         positions st' = (positions st)[i := candleTurn now k ?q]"
      using i t r by (rule processPosition_hit)
    have h1: "trailingStop st' = ?cfg" by (rule h [THEN conjunct1])
    have h2: "length (positions st') = length (positions st)"
      by (rule h [THEN conjunct2, THEN conjunct1])
    have h3: "positions st' = (positions st)[i := candleTurn now k ?q]"
      by (rule h [THEN conjunct2, THEN conjunct2])
    have "status (candleTurn now k (T i)) = CLOSED" using a True by (rule candleTurn_triggered(1))
    then have "status (candleTurn now k (T i)) \<noteq> ACTIVE" by simp
    then have u: "spec_batchedUpdate ?cfg (candleTurn now k (T i)) = candleTurn now k (T i)"
      by (rule spec_batchedUpdate_inactive)
    have ci: "sameUpTo ?cfg (candleTurn now k (T i)) (candleTurn now k ?q)"
      using si by (rule sameUpTo_candleTurn)
    have "\<forall>j<length (positions st).
            sameUpTo ?cfg
              (if j = i then spec_batchedUpdate ?cfg (candleTurn now k (T i)) else T j)
              (positions st' ! j)"
    proof (intro allI impI)
      fix j assume j: "j < length (positions st)"
      show "sameUpTo ?cfg
              (if j = i then spec_batchedUpdate ?cfg (candleTurn now k (T i)) else T j)
              (positions st' ! j)"
      proof (cases "j = i")
        case True
        have "positions st' ! i = candleTurn now k ?q" unfolding h3 using i by simp
        then have "sameUpTo ?cfg (spec_batchedUpdate ?cfg (candleTurn now k (T i)))
            (positions st' ! i)"
          using ci unfolding u by simp
        then show ?thesis using True by simp
      next
        case False
        have "positions st' ! j = positions st ! j" unfolding h3 using False by simp
        moreover have "sameUpTo ?cfg (T j) (positions st ! j)" using s [rule_format, OF j] .
        ultimately show ?thesis using False by simp
      qed
    qed
    with h1 h2 show ?thesis by (intro conjI)
  next
    case False
    then have t: "\<not> stopTriggered k ?q" using tq by simp
    have m: "trailingStop st' = ?cfg \<and> length (positions st') = length (positions st) \<and>
         (\<forall>j<length (positions st).
            noOrder (positions st' ! j) =
            noOrder (spec_batchedUpdate ?cfg
              (if j = i then candleTurn now k ?q else positions st ! j)))"
      using i t qa r by (rule processPosition_miss)
    have m1: "trailingStop st' = ?cfg" by (rule m [THEN conjunct1])
    have m2: "length (positions st') = length (positions st)"
      by (rule m [THEN conjunct2, THEN conjunct1])
    have m3: "\<forall>j<length (positions st).
            noOrder (positions st' ! j) =
            noOrder (spec_batchedUpdate ?cfg
              (if j = i then candleTurn now k ?q else positions st ! j))"
      by (rule m [THEN conjunct2, THEN conjunct2])
    have "\<forall>j<length (positions st).
            sameUpTo ?cfg
              (if j = i then spec_batchedUpdate ?cfg (candleTurn now k (T i)) else T j)
              (positions st' ! j)"
    proof (intro allI impI)
      fix j assume j: "j < length (positions st)"
      have mj: "noOrder (positions st' ! j) =
            noOrder (spec_batchedUpdate ?cfg
              (if j = i then candleTurn now k ?q else positions st ! j))"
        using m3 [rule_format, OF j] .
      show "sameUpTo ?cfg
              (if j = i then spec_batchedUpdate ?cfg (candleTurn now k (T i)) else T j)
              (positions st' ! j)"
      proof (cases "j = i")
        case True
        have x: "noOrder (positions st' ! i) =
            noOrder (spec_batchedUpdate ?cfg (candleTurn now k ?q))"
          using mj True by simp
        have "noOrder (positions st' ! i) =
            noOrder (spec_batchedUpdate ?cfg (candleTurn now k (T i)))"
          using a False si x by (rule sameUpTo_turn_pass)
        then show ?thesis using True by (simp add: sameUpTo_def)
      next
        case n: False
        have x: "noOrder (positions st' ! j) = noOrder (spec_batchedUpdate ?cfg (positions st ! j))"
          using mj n by simp
        have cj: "calm ?cfg (T j)" using c [rule_format, OF False j n] .
        have sj: "sameUpTo ?cfg (T j) (positions st ! j)" using s [rule_format, OF j] .
        have "sameUpTo ?cfg (T j) (positions st' ! j)" using cj sj x by (rule calm_pass)
        then show ?thesis using n by simp
      qed
    qed
    with m1 m2 show ?thesis by (intro conjI)
  qed
qed

lemma processPositions_targets:
  assumes "distinct js"
      and "\<forall>j\<in>set js. j < length (positions st) \<and> status (T j) = ACTIVE \<and>
             0 < currentTrailingStop (T j)"
      and "sorted_wrt (\<lambda>a b. \<not> stopTriggered k (T a) \<longrightarrow> calm (trailingStop st) (T b)) js"
      and "\<forall>j<length (positions st). j \<notin> set js \<longrightarrow> calm (trailingStop st) (T j)"
      and "\<forall>j<length (positions st). sameUpTo (trailingStop st) (T j) (positions st ! j)"
      and "processPositions gw now k js st = Inr st'"
  shows "trailingStop st' = trailingStop st \<and> length (positions st') = length (positions st) \<and>
         (\<forall>j<length (positions st).
            sameUpTo (trailingStop st)
              (if j \<in> set js then spec_batchedUpdate (trailingStop st) (candleTurn now k (T j))
               else T j)
              (positions st' ! j))"
  using assms
proof (induction js arbitrary: st T)
  case Nil
  then show ?case by simp
next
  case (Cons i js)
  let ?cfg = "trailingStop st"
  let ?t = "spec_batchedUpdate ?cfg (candleTurn now k (T i))"
  let ?T = "T(i := ?t)"
  from Cons.prems(6) obtain st1 where a: "processPosition gw now k i st = Inr st1"
    and b: "processPositions gw now k js st1 = Inr st'"
    by (auto split: sum.splits)
  have i: "i < length (positions st)" and ia: "status (T i) = ACTIVE"
    and ip: "0 < currentTrailingStop (T i)"
    using Cons.prems(2) by simp_all
  have ni: "i \<notin> set js" and d: "distinct js" using Cons.prems(1) by simp_all
  have c: "\<not> stopTriggered k (T i) \<longrightarrow>
                (\<forall>j<length (positions st). j \<noteq> i \<longrightarrow> calm ?cfg (T j))"
  proof (intro impI allI)
    fix j assume n: "\<not> stopTriggered k (T i)" and j: "j < length (positions st)" and ji: "j \<noteq> i"
    show "calm ?cfg (T j)"
    proof (cases "j \<in> set js")
      case True
      then show ?thesis using Cons.prems(3) n by simp
    next
      case False
      then show ?thesis using Cons.prems(4) j ji by simp
    qed
  qed
  have t: "trailingStop st1 = ?cfg \<and> length (positions st1) = length (positions st) \<and>
         (\<forall>j<length (positions st).
            sameUpTo ?cfg (if j = i then ?t else T j) (positions st1 ! j))"
    using i ia ip c Cons.prems(5) a by (rule processPosition_targets)
  have c1: "trailingStop st1 = ?cfg" by (rule t [THEN conjunct1])
  have l1: "length (positions st1) = length (positions st)"
    by (rule t [THEN conjunct2, THEN conjunct1])
  have t1: "\<forall>j<length (positions st).
            sameUpTo ?cfg (if j = i then ?t else T j) (positions st1 ! j)"
    by (rule t [THEN conjunct2, THEN conjunct2])
  have Ti: "?T i = ?t" by simp
  have Tj: "?T j = T j" if "j \<noteq> i" for j using that by simp
  have Tjs: "?T j = T j" if "j \<in> set js" for j
  proof -
    have "j \<noteq> i" using that ni by auto
    then show ?thesis by simp
  qed
  have p1: "\<forall>j\<in>set js. j < length (positions st1) \<and> status (?T j) = ACTIVE \<and>
             0 < currentTrailingStop (?T j)"
  proof
    fix j assume j: "j \<in> set js"
    then have "j < length (positions st) \<and> status (T j) = ACTIVE \<and>
             0 < currentTrailingStop (T j)"
      using Cons.prems(2) by simp
    then show "j < length (positions st1) \<and> status (?T j) = ACTIVE \<and>
             0 < currentTrailingStop (?T j)"
      unfolding l1 Tjs [OF j] .
  qed
  have "sorted_wrt (\<lambda>a b. \<not> stopTriggered k (T a) \<longrightarrow> calm ?cfg (T b)) js"
    using Cons.prems(3) by simp
  then have p2: "sorted_wrt (\<lambda>a b. \<not> stopTriggered k (?T a) \<longrightarrow> calm (trailingStop st1) (?T b)) js"
  proof (rule sorted_wrt_mono_rel [rotated])
    fix x y assume x: "x \<in> set js" and y: "y \<in> set js"
      and xy: "\<not> stopTriggered k (T x) \<longrightarrow> calm ?cfg (T y)"
    show "\<not> stopTriggered k (?T x) \<longrightarrow> calm (trailingStop st1) (?T y)"
      unfolding c1 Tjs [OF x] Tjs [OF y] by (rule xy)
  qed
  have ti: "calm ?cfg ?t" using ia ip by (intro settled_calm target_settled)
  have p3: "\<forall>j<length (positions st1). j \<notin> set js \<longrightarrow> calm (trailingStop st1) (?T j)"
  proof (intro allI impI)
    fix j assume j: "j < length (positions st1)" and n: "j \<notin> set js"
    show "calm (trailingStop st1) (?T j)"
    proof (cases "j = i")
      case True
      then show ?thesis unfolding c1 using ti by simp
    next
      case False
      then have "j \<notin> set (i # js)" using n by simp
      then have "calm ?cfg (T j)" using Cons.prems(4) j l1 by simp
      then show ?thesis unfolding c1 Tj [OF False] .
    qed
  qed
  have p4: "\<forall>j<length (positions st1). sameUpTo (trailingStop st1) (?T j) (positions st1 ! j)"
  proof (intro allI impI)
    fix j assume j: "j < length (positions st1)"
    then have "sameUpTo ?cfg (if j = i then ?t else T j) (positions st1 ! j)"
      using t1 l1 by simp
    then show "sameUpTo (trailingStop st1) (?T j) (positions st1 ! j)"
      unfolding c1 by (cases "j = i") simp_all
  qed
  have ih: "trailingStop st' = trailingStop st1 \<and>
         length (positions st') = length (positions st1) \<and>
         (\<forall>j<length (positions st1).
            sameUpTo (trailingStop st1)
              (if j \<in> set js then spec_batchedUpdate (trailingStop st1) (candleTurn now k (?T j))
               else ?T j)
              (positions st' ! j))"
    using Cons.IH [OF d p1 p2 p3 p4 b] .
  have c2: "trailingStop st' = ?cfg" using ih [THEN conjunct1] c1 by simp
  have l2: "length (positions st') = length (positions st)"
    using ih [THEN conjunct2, THEN conjunct1] l1 by simp
  have ih': "\<forall>j<length (positions st).
            sameUpTo ?cfg
              (if j \<in> set js then spec_batchedUpdate ?cfg (candleTurn now k (?T j))
               else ?T j)
              (positions st' ! j)"
    using ih [THEN conjunct2, THEN conjunct2] unfolding l1 c1 .
  have "\<forall>j<length (positions st).
            sameUpTo ?cfg
              (if j \<in> set (i # js) then spec_batchedUpdate ?cfg (candleTurn now k (T j))
               else T j)
              (positions st' ! j)"
  proof (intro allI impI)
    fix j assume j: "j < length (positions st)"
    show "sameUpTo ?cfg
              (if j \<in> set (i # js) then spec_batchedUpdate ?cfg (candleTurn now k (T j))
               else T j)
              (positions st' ! j)"
    proof (cases "j = i")
      case True
      have "sameUpTo ?cfg
              (if i \<in> set js then spec_batchedUpdate ?cfg (candleTurn now k (?T i))
               else ?T i)
              (positions st' ! i)"
        using ih' [rule_format, OF i] .
      then have "sameUpTo ?cfg (?T i) (positions st' ! i)" using ni by (simp only: if_False)
      then have "sameUpTo ?cfg ?t (positions st' ! i)" unfolding Ti .
      then show ?thesis using True by simp
    next
      case False
      have "sameUpTo ?cfg
              (if j \<in> set js then spec_batchedUpdate ?cfg (candleTurn now k (?T j))
               else ?T j)
              (positions st' ! j)"
        using ih' [rule_format, OF j] .
      then have "sameUpTo ?cfg
              (if j \<in> set js then spec_batchedUpdate ?cfg (candleTurn now k (T j))
               else T j)
              (positions st' ! j)"
        unfolding Tj [OF False] .
      then show ?thesis using False by simp
    qed
  qed
  with c2 l2 show ?case by (intro conjI)
qed

lemma getActivePositions_sorted: "sorted_wrt (<) (getActivePositions st)"
  unfolding getActivePositions_def by (rule sorted_wrt_filter) simp

lemma processKline_calm:
  assumes pos: "\<forall>p\<in>set (positions st). status p = ACTIVE \<longrightarrow> 0 < currentTrailingStop p"
      and cal: "\<forall>i j. i < j \<and> j < length (positions st) \<and> status (positions st ! i) = ACTIVE \<and>
                  \<not> stopTriggered k (positions st ! i) \<longrightarrow>
                  calm (trailingStop st) (positions st ! j)"
      and r: "processKline gw now k st = Inr st'"
  shows "map statusAndStop (positions st') =
           map statusAndStop (spec_processKline now (trailingStop st) k (positions st)) \<and>
         (\<forall>p\<in>set (positions st'). settled (trailingStop st') p)"
proof -
  let ?cfg = "trailingStop st"
  let ?js = "getActivePositions st"
  let ?T = "\<lambda>j. positions st ! j"
  let ?T1 = "\<lambda>j. if j \<in> set ?js then spec_batchedUpdate ?cfg (candleTurn now k (?T j)) else ?T j"
  obtain st1 where a: "processPositions gw now k ?js st = Inr st1"
    and b: "updateTrailingStops gw st1 = Inr st'"
    using r by (rule processKline_Inr)
  have h2: "\<forall>j\<in>set ?js. j < length (positions st) \<and> status (?T j) = ACTIVE \<and>
             0 < currentTrailingStop (?T j)"
  proof
    fix j assume "j \<in> set ?js"
    then have j: "j < length (positions st)" and ja: "status (positions st ! j) = ACTIVE"
      by (simp_all add: getActivePositions_set)
    have "positions st ! j \<in> set (positions st)" using j by simp
    then have "0 < currentTrailingStop (positions st ! j)" using pos ja by blast
    then show "j < length (positions st) \<and> status (?T j) = ACTIVE \<and>
             0 < currentTrailingStop (?T j)"
      using j ja by simp
  qed
  have "sorted_wrt (<) ?js" by (rule getActivePositions_sorted)
  then have h3: "sorted_wrt (\<lambda>a b. \<not> stopTriggered k (?T a) \<longrightarrow> calm ?cfg (?T b)) ?js"
  proof (rule sorted_wrt_mono_rel [rotated])
    fix x y assume x: "x \<in> set ?js" and y: "y \<in> set ?js" and xy: "x < y"
    have "y < length (positions st)" and "status (positions st ! x) = ACTIVE"
      using x y by (simp_all add: getActivePositions_set)
    then show "\<not> stopTriggered k (?T x) \<longrightarrow> calm ?cfg (?T y)"
      using cal xy by blast
  qed
  have h4: "\<forall>j<length (positions st). j \<notin> set ?js \<longrightarrow> calm ?cfg (?T j)"
    by (simp add: getActivePositions_set calm_def)
  have h5: "\<forall>j<length (positions st). sameUpTo ?cfg (?T j) (positions st ! j)"
    by (simp add: sameUpTo_refl)
  have f: "trailingStop st1 = ?cfg \<and> length (positions st1) = length (positions st) \<and>
         (\<forall>j<length (positions st). sameUpTo ?cfg (?T1 j) (positions st1 ! j))"
    using getActivePositions_distinct h2 h3 h4 h5 a by (rule processPositions_targets)
  have c1: "trailingStop st1 = ?cfg" by (rule f [THEN conjunct1])
  have l1: "length (positions st1) = length (positions st)"
    by (rule f [THEN conjunct2, THEN conjunct1])
  have f3: "\<forall>j<length (positions st). sameUpTo ?cfg (?T1 j) (positions st1 ! j)"
    by (rule f [THEN conjunct2, THEN conjunct2])
  have g: "trailingStop st' = trailingStop st1 \<and> length (positions st') = length (positions st1) \<and>
         (\<forall>j<length (positions st1).
            noOrder (positions st' ! j) =
            noOrder (spec_batchedUpdate (trailingStop st1) (positions st1 ! j)))"
    using b by (rule updateTrailingStops_noOrder)
  have c2: "trailingStop st' = ?cfg" using g [THEN conjunct1] c1 by simp
  have l2: "length (positions st') = length (positions st)"
    using g [THEN conjunct2, THEN conjunct1] l1 by simp
  have g3: "\<forall>j<length (positions st).
            noOrder (positions st' ! j) = noOrder (spec_batchedUpdate ?cfg (positions st1 ! j))"
    using g [THEN conjunct2, THEN conjunct2] unfolding l1 c1 .
  have set1: "settled ?cfg (?T1 j)" if j: "j < length (positions st)" for j
  proof (cases "j \<in> set ?js")
    case True
    then have "status (?T j) = ACTIVE" and "0 < currentTrailingStop (?T j)"
      using h2 by simp_all
    then have "settled ?cfg (spec_batchedUpdate ?cfg (candleTurn now k (?T j)))"
      by (rule target_settled)
    then show ?thesis using True by simp
  next
    case False
    then have "status (positions st ! j) \<noteq> ACTIVE" using j by (simp add: getActivePositions_set)
    then show ?thesis using False by (simp add: settled_def)
  qed
  have fin: "sameUpTo ?cfg (?T1 j) (positions st' ! j)" if j: "j < length (positions st)" for j
  proof -
    have "calm ?cfg (?T1 j)" using set1 [OF j] by (rule settled_calm)
    moreover have "sameUpTo ?cfg (?T1 j) (positions st1 ! j)" using f3 [rule_format, OF j] .
    moreover have "noOrder (positions st' ! j) =
        noOrder (spec_batchedUpdate ?cfg (positions st1 ! j))"
      using g3 [rule_format, OF j] .
    ultimately show ?thesis by (rule calm_pass)
  qed
  have "\<forall>j<length (positions st). statusAndStop (positions st' ! j) =
          statusAndStop (spec_processKline now ?cfg k (positions st) ! j)"
  proof (intro allI impI)
    fix j assume j: "j < length (positions st)"
    have sp: "spec_processKline now ?cfg k (positions st) ! j =
        spec_batchedUpdate ?cfg (spec_updatePosition now k (positions st ! j))"
      using j by (simp add: spec_processKline_def)
    have e: "statusAndStop (positions st' ! j) = statusAndStop (?T1 j)"
      using fin [OF j] by (rule sameUpTo_statusAndStop)
    show "statusAndStop (positions st' ! j) =
          statusAndStop (spec_processKline now ?cfg k (positions st) ! j)"
    proof (cases "status (positions st ! j) = ACTIVE")
      case True
      then have "j \<in> set ?js" using j by (simp add: getActivePositions_set)
      then have "statusAndStop (positions st' ! j) =
          statusAndStop (spec_batchedUpdate ?cfg (candleTurn now k (positions st ! j)))"
        using e by simp
      then show ?thesis using spec_step_statusAndStop [OF True, of ?cfg now k] sp by simp
    next
      case False
      then have "j \<notin> set ?js" by (simp add: getActivePositions_set)
      then have "statusAndStop (positions st' ! j) = statusAndStop (positions st ! j)"
        using e by simp
      then show ?thesis using spec_step_inactive [OF False, of ?cfg now k] sp by simp
    qed
  qed
  then have m: "map statusAndStop (positions st') =
           map statusAndStop (spec_processKline now ?cfg k (positions st))"
    using l2 by (simp add: list_eq_iff_nth_eq spec_processKline_def)
  have "\<forall>p\<in>set (positions st'). settled (trailingStop st') p"
  proof
    fix p assume "p \<in> set (positions st')"
    then obtain j where j: "j < length (positions st)" and p: "p = positions st' ! j"
      using l2 by (auto simp: in_set_conv_nth)
    have "settled ?cfg (positions st' ! j)" using set1 [OF j] fin [OF j] by (rule sameUpTo_settled)
    then show "settled (trailingStop st') p" using p c2 by simp
  qed
  with m show ?thesis by (intro conjI)
qed

text \<open>
  C3, as stated, fails for a position that enters the candle with its stop at zero: the
  nested call sets the initial stop 98, and the call after the loop, now with a stop that
  is set, raises it to 101.455 in the same candle; one batched pass leaves it at 98.
\<close>

theorem interleaved_updates_counterexample:
  "stopsOf (processKline exampleGateway 7 (exampleCandle 103 100 103)
      (exampleSimulation [examplePosition 100 100 0])) = Some [(ACTIVE, 20291 / 200)] \<and>
   map statusAndStop
     (spec_processKline 7 unsetSettings (exampleCandle 103 100 103) [examplePosition 100 100 0]) =
     [(ACTIVE, 98)]"
  by (simp add: simulation_defs example_defs)

text \<open>
  The two steps can also differ when every stop is set: here the second position enters
  the candle with a stop that a call of \<^verbatim>\<open>updateTrailingStop\<close> would raise.  The pass nested
  in the turn of the first position raises it to 108.35 before the low 105 of the candle
  is compared with it, and the position is closed; in the batched step the low is compared
  with the stop 98 and the position stays active.
\<close>

lemma interleaved_updates_stale_example:
  "stopsOf (processKline exampleGateway 7 (exampleCandle 110 105 109)
      (exampleSimulation [examplePosition 100 100 98, examplePosition 110 110 98])) =
     Some [(ACTIVE, 2167 / 20), (CLOSED, 2167 / 20)] \<and>
   map statusAndStop
     (spec_processKline 7 unsetSettings (exampleCandle 110 105 109)
        [examplePosition 100 100 98, examplePosition 110 110 98]) =
     [(ACTIVE, 2167 / 20), (ACTIVE, 2167 / 20)]"
  by (simp add: simulation_defs example_defs)

text \<open>
  An active position with a stop and with no stored settings is calm without being
  settled: the first call stores the resolved settings.
\<close>

lemma calm_not_settled_example:
  "calm unsetSettings (examplePosition 100 100 98) \<and>
   \<not> settled unsetSettings (examplePosition 100 100 98)"
  by (simp add: calm_def settled_def resolved_def example_defs)

text \<open>
  C3, amended.  Let every active position enter the candle with a positive stop, and let
  every position that stands after an active position whose stop the candle does not
  trigger be calm: a call of \<^verbatim>\<open>updateTrailingStop\<close> with the configured settings would
  change nothing of it but the stored settings.  Then a completed step of the simulator
  leaves every position with the status and the stop that the batched step of the
  specification gives it, and leaves every position settled, hence calm and with a
  positive stop when it is active; the step completes when no order request fails.
\<close>

theorem interleaved_updates_batched:
  "(\<forall>p\<in>set (positions st). status p = ACTIVE \<longrightarrow> 0 < currentTrailingStop p) \<and>
   (\<forall>i j. i < j \<and> j < length (positions st) \<and> status (positions st ! i) = ACTIVE \<and>
           \<not> stopTriggered k (positions st ! i) \<longrightarrow>
           calm (trailingStop st) (positions st ! j)) \<longrightarrow>
     ((\<forall>n. gw n \<noteq> None) \<longrightarrow> (\<exists>st'. processKline gw now k st = Inr st')) \<and>
     (processKline gw now k st = Inr st' \<longrightarrow>
        map statusAndStop (positions st') =
          map statusAndStop (spec_processKline now (trailingStop st) k (positions st)) \<and>
        (\<forall>p\<in>set (positions st'). settled (trailingStop st') p))"
proof (intro impI conjI)
  assume "\<forall>n. gw n \<noteq> None"
  then show "\<exists>st'. processKline gw now k st = Inr st'" by (rule processKline_total)
next
  assume h: "(\<forall>p\<in>set (positions st). status p = ACTIVE \<longrightarrow> 0 < currentTrailingStop p) \<and>
   (\<forall>i j. i < j \<and> j < length (positions st) \<and> status (positions st ! i) = ACTIVE \<and>
           \<not> stopTriggered k (positions st ! i) \<longrightarrow>
           calm (trailingStop st) (positions st ! j))"
    and r: "processKline gw now k st = Inr st'"
  have "map statusAndStop (positions st') =
          map statusAndStop (spec_processKline now (trailingStop st) k (positions st)) \<and>
        (\<forall>p\<in>set (positions st'). settled (trailingStop st') p)"
    using h [THEN conjunct1] h [THEN conjunct2] r by (rule processKline_calm)
  then show "map statusAndStop (positions st') =
          map statusAndStop (spec_processKline now (trailingStop st) k (positions st))"
    and "\<forall>p\<in>set (positions st'). settled (trailingStop st') p"
    by (rule conjunct1, rule conjunct2)
qed

theorem interleaved_updates_batched_witness:
  "stopsOf (processKline exampleGateway 7 (exampleCandle 104 (197 / 2) 103)
      (exampleSimulation freshExample)) =
     Some (map statusAndStop
       (spec_processKline 7 unsetSettings (exampleCandle 104 (197 / 2) 103) freshExample)) \<and>
   map statusAndStop
       (spec_processKline 7 unsetSettings (exampleCandle 104 (197 / 2) 103) freshExample) =
     [(ACTIVE, 2561 / 25), (CLOSED, 99)]"
proof -
  let ?st = "exampleSimulation freshExample"
  let ?k = "exampleCandle 104 (197 / 2) 103"
  have c: "trailingStop ?st = unsetSettings" "positions ?st = freshExample"
    by (simp_all add: exampleSimulation_def)
  have a: "\<forall>p\<in>set (positions ?st). status p = ACTIVE \<longrightarrow> 0 < currentTrailingStop p"
    unfolding c by (simp add: freshExample_def examplePosition_def)
  have "calm unsetSettings (examplePosition 100 100 99)"
    by (simp add: calm_def resolved_def example_defs)
  then have b: "\<forall>i j. i < j \<and> j < length (positions ?st) \<and> status (positions ?st ! i) = ACTIVE \<and>
           \<not> stopTriggered ?k (positions ?st ! i) \<longrightarrow>
           calm (trailingStop ?st) (positions ?st ! j)"
    unfolding c by (auto simp: freshExample_def less_Suc_eq numeral_2_eq_2)
  obtain st' where r: "processKline exampleGateway 7 ?k ?st = Inr st'"
    using processKline_total [OF exampleGateway_total] by blast
  have "map statusAndStop (positions st') =
          map statusAndStop (spec_processKline 7 (trailingStop ?st) ?k (positions ?st))"
    using interleaved_updates_batched [of ?st ?k exampleGateway 7 st'] a b r by blast
  then have 1: "stopsOf (processKline exampleGateway 7 ?k ?st) =
     Some (map statusAndStop (spec_processKline 7 unsetSettings ?k freshExample))"
    by (simp add: r stopsOf_def c)
  have 2: "map statusAndStop (spec_processKline 7 unsetSettings ?k freshExample) =
     [(ACTIVE, 2561 / 25), (CLOSED, 99)]"
    by (simp add: simulation_defs example_defs freshExample_def)
  from 1 2 show ?thesis by blast
qed

end
